theory Spec2Isabelle
  imports Complex_Main "HOL-Library.Word"
begin

section \<open>Scalar types, rounding and arithmetic\<close>

text \<open>
  The kernels of \<^verbatim>\<open>aten/src/ATen/native/cpu/group_norm_kernel.cpp\<close> are templates over a
  storage type \<^verbatim>\<open>T\<close>, its accumulation type \<^verbatim>\<open>T_ACC = at::opmath_type<T>\<close> and a parameter
  type \<^verbatim>\<open>PT\<close>. A value of any of these types is modelled by the real number it denotes; an
  operation of a type is the exact operation followed by the rounding of that type.
  Infinities, NaN, overflow and subnormal numbers are not modelled.
\<close>

type_synonym rounding = "real \<Rightarrow> real"

datatype scalar_type = Float | Double | BFloat16

text \<open>Round to the nearest integer, ties to even.\<close>

definition round_half_even :: "real \<Rightarrow> int" where
  "round_half_even x =
     (let f = \<lfloor>x\<rfloor>; d = x - of_int f
      in if d < 1 / 2 then f else if 1 / 2 < d then f + 1 else if even f then f else f + 1)"

text \<open>
  The binary exponent \<open>e\<close> of a positive \<open>x\<close>, with \<open>2 ^ e \<le> x < 2 ^ (e + 1)\<close>, found by
  halving or doubling. The first argument bounds the search, as the exponent range of a
  floating-point format does.
\<close>

fun binary_exponent :: "nat \<Rightarrow> real \<Rightarrow> int" where
  "binary_exponent 0 x = 0"
| "binary_exponent (Suc n) x =
     (if 2 \<le> x then binary_exponent n (x / 2) + 1
      else if x < 1 then binary_exponent n (2 * x) - 1
      else 0)"

definition pow2 :: "int \<Rightarrow> real" where
  "pow2 e = (if 0 \<le> e then 2 ^ nat e else 1 / 2 ^ nat (- e))"

text \<open>Round to \<open>p\<close> significant bits, to nearest, ties to even.\<close>

definition round_to_bits :: "nat \<Rightarrow> rounding" where
  "round_to_bits p x =
     (if x = 0 then 0
      else let u = pow2 (binary_exponent 2048 \<bar>x\<bar> - int p + 1)
           in of_int (round_half_even (x / u)) * u)"

definition precision_bits :: "scalar_type \<Rightarrow> nat" where
  "precision_bits t = (case t of Float \<Rightarrow> 24 | Double \<Rightarrow> 53 | BFloat16 \<Rightarrow> 8)"

definition round_to :: "scalar_type \<Rightarrow> rounding" where
  "round_to t = round_to_bits (precision_bits t)"

definition opmath_type :: "scalar_type \<Rightarrow> scalar_type" where
  "opmath_type t = (case t of Float \<Rightarrow> Float | Double \<Rightarrow> Double | BFloat16 \<Rightarrow> Float)"

text \<open>
  The instantiation of a kernel template: the roundings of \<^verbatim>\<open>T\<close>, \<^verbatim>\<open>T_ACC\<close> and \<^verbatim>\<open>PT\<close>, the lane
  counts \<^verbatim>\<open>vec::Vectorized<T>::size()\<close>, \<^verbatim>\<open>vec::Vectorized<T_ACC>::size()\<close> and
  \<^verbatim>\<open>vec::Vectorized<PT>::size()\<close>, and what selects the explicit specializations and
  overloads of the source: whether \<^verbatim>\<open>T\<close> is \<^verbatim>\<open>BFloat16\<close> and whether \<^verbatim>\<open>PT\<close> is \<^verbatim>\<open>float\<close>.
\<close>

record numerics =
  to_T :: rounding
  to_ACC :: rounding
  to_PT :: rounding
  vec_size_T :: nat
  vec_size_ACC :: nat
  vec_size_PT :: nat
  bfloat16_T :: bool
  float_PT :: bool

text \<open>
  Exact arithmetic: no operation rounds. A register of \<^verbatim>\<open>BFloat16\<close> has twice the lanes of a
  register of \<^verbatim>\<open>float\<close>.
\<close>

definition exact_arithmetic :: "numerics \<Rightarrow> bool" where
  "exact_arithmetic nm =
     (to_T nm = (\<lambda>x. x) \<and> to_ACC nm = (\<lambda>x. x) \<and> to_PT nm = (\<lambda>x. x))"

definition lanes_ok :: "numerics \<Rightarrow> bool" where
  "lanes_ok nm =
     (0 < vec_size_ACC nm
      \<and> vec_size_T nm = (if bfloat16_T nm then 2 * vec_size_ACC nm else vec_size_ACC nm)
      \<and> vec_size_PT nm =
          (if bfloat16_T nm \<and> \<not> float_PT nm then 2 * vec_size_ACC nm else vec_size_ACC nm))"

definition exact :: "nat \<Rightarrow> bool \<Rightarrow> bool \<Rightarrow> numerics" where
  "exact K bf fp =
     \<lparr>to_T = (\<lambda>x. x), to_ACC = (\<lambda>x. x), to_PT = (\<lambda>x. x),
      vec_size_T = (if bf then 2 * K else K), vec_size_ACC = K,
      vec_size_PT = (if bf \<and> \<not> fp then 2 * K else K),
      bfloat16_T = bf, float_PT = fp\<rparr>"

definition fadd :: "rounding \<Rightarrow> real \<Rightarrow> real \<Rightarrow> real" where
  "fadd r a b = r (a + b)"

definition fsub :: "rounding \<Rightarrow> real \<Rightarrow> real \<Rightarrow> real" where
  "fsub r a b = r (a - b)"

definition fmul :: "rounding \<Rightarrow> real \<Rightarrow> real \<Rightarrow> real" where
  "fmul r a b = r (a * b)"

definition fdiv :: "rounding \<Rightarrow> real \<Rightarrow> real \<Rightarrow> real" where
  "fdiv r a b = r (a / b)"

definition fsqrt :: "rounding \<Rightarrow> real \<Rightarrow> real" where
  "fsqrt r a = r (sqrt a)"

section \<open>Tensors, errors and the parallel range executor\<close>

text \<open>
  A data pointer is the memory reached through it, by element offset. A tensor is its
  element count and its data; an undefined tensor is \<open>None\<close>.
\<close>

type_synonym buffer = "nat \<Rightarrow> real"

record tensor =
  numel :: nat
  data_ptr :: buffer

text \<open>
  The sizes \<open>N\<close>, \<open>C\<close>, \<open>HxW\<close> and \<open>group\<close> and the element count of a tensor are \<^verbatim>\<open>int64_t\<close> in
  the source; they are not negative, and are natural numbers here. A \<^verbatim>\<open>TORCH_CHECK\<close> that
  compares an element count with a product of sizes compares machine integers: the
  product is the product of 64-bit words, which wraps around.
\<close>

definition int64 :: "nat \<Rightarrow> 64 word" where
  "int64 n = of_nat n"

datatype error = CheckFailed | IntegerDivideByZero | UnsupportedMemoryFormat

text \<open>
  A call either returns, with the output buffers as it leaves them (\<open>Inr\<close>), or raises,
  with the error and the output buffers at that moment (\<open>Inl\<close>).
\<close>

type_synonym 's result = "(error \<times> 's) + 's"

text \<open>
  Modelled from the spec: \<^verbatim>\<open>at::parallel_for\<close> (not among the sources) is the black-box
  range executor of section 5: it cuts the range into chunks and runs the function on
  every chunk, each on some thread of the pool. A scheduler gives, for a range and a
  grain size, the chunks as (thread number, begin, end); the chunks of a phase write
  disjoint locations, and the model runs them one after the other.
\<close>

type_synonym chunk = "nat \<times> nat \<times> nat"
type_synonym scheduler = "nat \<Rightarrow> nat \<Rightarrow> nat \<Rightarrow> chunk list"

text \<open>The pool: \<^verbatim>\<open>at::get_num_threads()\<close> and the scheduler.\<close>

record thread_pool =
  num_threads :: nat
  chunks_of :: scheduler

definition parallel_for ::
  "thread_pool \<Rightarrow> nat \<Rightarrow> nat \<Rightarrow> nat \<Rightarrow> (nat \<Rightarrow> nat \<Rightarrow> nat \<Rightarrow> 's \<Rightarrow> 's) \<Rightarrow> 's \<Rightarrow> 's" where
  "parallel_for pool begin end grain f s =
     fold (\<lambda>(tid, b, e). f tid b e) (chunks_of pool begin end grain) s"

text \<open>The chunks are consecutive, not empty, cover the range, and run on threads of the pool.\<close>

fun covers :: "nat \<Rightarrow> nat \<Rightarrow> nat \<Rightarrow> chunk list \<Rightarrow> bool" where
  "covers T b e [] = (e \<le> b)"
| "covers T b e ((tid, b', e') # cs) = (tid < T \<and> b' = b \<and> b < e' \<and> e' \<le> e \<and> covers T e' e cs)"

definition valid_pool :: "thread_pool \<Rightarrow> bool" where
  "valid_pool pool = (\<forall>b e g. covers (num_threads pool) b e (chunks_of pool b e g))"

text \<open>A scheduler for a pool of two threads: the range is cut in two halves.\<close>

definition halves :: scheduler where
  "halves b e g =
     (if e \<le> b then []
      else if e = b + 1 then [(0, b, e)]
      else [(0, b, b + (e - b) div 2), (1, b + (e - b) div 2, e)])"

definition two_threads :: thread_pool where
  "two_threads = \<lparr>num_threads = 2, chunks_of = halves\<rparr>"

text \<open>
  \<^verbatim>\<open>data_index_init\<close> and \<^verbatim>\<open>data_index_step\<close> of \<^verbatim>\<open>ATen/native/cpu/utils.h\<close> (not among the
  sources), for two dimensions: the row-major decomposition of a linear offset, and the
  step to the next offset.
\<close>

definition data_index_init :: "nat \<Rightarrow> nat \<Rightarrow> nat \<Rightarrow> nat \<times> nat" where
  "data_index_init offset X1 X2 = ((offset div X2) mod X1, offset mod X2)"

definition data_index_step :: "nat \<times> nat \<Rightarrow> nat \<Rightarrow> nat \<Rightarrow> nat \<times> nat" where
  "data_index_step x X1 X2 =
     (case x of (x1, x2) \<Rightarrow>
        if x2 + 1 = X2 then ((if x1 + 1 = X1 then 0 else x1 + 1), 0) else (x1, x2 + 1))"

section \<open>Forward, packed layout\<close>

text \<open>
  Modelled from the spec: \<^verbatim>\<open>RowwiseMoments\<close> (\<^verbatim>\<open>ATen/native/cpu/moments_utils.h\<close>, not among
  the sources) returns the mean and the biased variance of a contiguous run of \<open>n\<close>
  elements (sections 4.1 and 4.3), here each correctly rounded.
\<close>

definition RowwiseMoments :: "rounding \<Rightarrow> buffer \<Rightarrow> nat \<Rightarrow> nat \<Rightarrow> real \<times> real" where
  "RowwiseMoments r X off n =
     (let m = (\<Sum>j\<leftarrow>[0..<n]. X (off + j)) / real n
      in (r m, r ((\<Sum>j\<leftarrow>[0..<n]. (X (off + j) - m) * (X (off + j) - m)) / real n)))"

type_synonym moments = "rounding \<Rightarrow> buffer \<Rightarrow> nat \<Rightarrow> nat \<Rightarrow> real \<times> real"

record fwd_buffers =
  Y_data :: buffer
  mean_data :: buffer
  rstd_data :: buffer

text \<open>The body of the loop over the units \<open>i\<close> (lines 61 to 85).\<close>

definition packed_unit ::
  "numerics \<Rightarrow> moments \<Rightarrow> buffer \<Rightarrow> buffer option \<Rightarrow> buffer option \<Rightarrow>
   nat \<Rightarrow> nat \<Rightarrow> nat \<Rightarrow> real \<Rightarrow> nat \<Rightarrow> fwd_buffers \<Rightarrow> fwd_buffers" where
  "packed_unit nm rowwise X_data gamma_data beta_data C HxW G eps i s =
     (let D = C div G;
          inner_size = D * HxW;
          r = to_ACC nm;
          (mean_val, var_val) = rowwise r X_data (i * inner_size) inner_size;
          rstd_val = fdiv r 1 (fsqrt r (fadd r (max var_val 0) eps));
          Y' =
            (if gamma_data = None \<and> beta_data = None then
               fold (\<lambda>j Y. Y(i * inner_size + j :=
                        to_T nm (fmul r (fsub r (X_data (i * inner_size + j)) mean_val) rstd_val)))
                 [0..<inner_size] (Y_data s)
             else
               let g = i mod G in
               fold (\<lambda>j Y.
                   let c = g * D + j;
                       scale = fmul r rstd_val (case gamma_data of None \<Rightarrow> 1 | Some gm \<Rightarrow> gm c);
                       bias = fadd r (fmul r (- scale) mean_val)
                                (case beta_data of None \<Rightarrow> 0 | Some bt \<Rightarrow> bt c)
                   in fold (\<lambda>k Y. Y((i * D + j) * HxW + k :=
                               to_T nm (fadd r (fmul r scale (X_data ((i * D + j) * HxW + k))) bias)))
                        [0..<HxW] Y)
                 [0..<D] (Y_data s))
      in s\<lparr>Y_data := Y',
            mean_data := (mean_data s)(i := to_PT nm mean_val),
            rstd_data := (rstd_data s)(i := to_PT nm rstd_val)\<rparr>)"

text \<open>
  \<^verbatim>\<open>GroupNormKernelImplInternal\<close> (lines 29 to 88). The three \<^verbatim>\<open>TORCH_CHECK\<close>s come first;
  \<^verbatim>\<open>C / G\<close> with \<open>G = 0\<close> is undefined in C++ (a trap on x86) and is kept as an outcome of
  its own, so that nothing rests on the value of a division by zero.
\<close>

definition GroupNormKernelImplInternal ::
  "numerics \<Rightarrow> moments \<Rightarrow> thread_pool \<Rightarrow> tensor \<Rightarrow> tensor option \<Rightarrow> tensor option \<Rightarrow>
   nat \<Rightarrow> nat \<Rightarrow> nat \<Rightarrow> nat \<Rightarrow> real \<Rightarrow> fwd_buffers \<Rightarrow> fwd_buffers result" where
  "GroupNormKernelImplInternal nm rowwise pool X gamma beta N C HxW ngroup eps s =
     (if int64 (numel X) \<noteq> int64 N * int64 C * int64 HxW then Inl (CheckFailed, s)
      else if \<not> (gamma = None \<or> numel (the gamma) = C) then Inl (CheckFailed, s)
      else if \<not> (beta = None \<or> numel (the beta) = C) then Inl (CheckFailed, s)
      else if ngroup = 0 then Inl (IntegerDivideByZero, s)
      else
        let G = ngroup in
        Inr (parallel_for pool 0 (N * G) 1
               (\<lambda>tid start end.
                  fold (packed_unit nm rowwise (data_ptr X) (map_option data_ptr gamma)
                          (map_option data_ptr beta) C HxW G eps) [start..<end]) s))"

section \<open>Forward, interleaved layout\<close>

text \<open>
  Modelled from the spec: the SIMD register of section 9 (\<^verbatim>\<open>vec::Vectorized\<close>, not among the
  sources) is a list of \<open>K\<close> lanes; a partial load fills the inactive lanes with zero, the
  arithmetic is lane by lane, and \<^verbatim>\<open>vec::vec_reduce_all\<close> folds the lanes.
\<close>

type_synonym vec = "real list"

definition vec_splat :: "nat \<Rightarrow> real \<Rightarrow> vec" where
  "vec_splat K x = replicate K x"

definition loadu :: "nat \<Rightarrow> buffer \<Rightarrow> nat \<Rightarrow> vec" where
  "loadu K p off = map (\<lambda>l. p (off + l)) [0..<K]"

definition loadu_count :: "nat \<Rightarrow> buffer \<Rightarrow> nat \<Rightarrow> nat \<Rightarrow> vec" where
  "loadu_count K p off count = map (\<lambda>l. if l < count then p (off + l) else 0) [0..<K]"

definition vadd :: "rounding \<Rightarrow> vec \<Rightarrow> vec \<Rightarrow> vec" where
  "vadd r a b = map2 (fadd r) a b"

definition vmul :: "rounding \<Rightarrow> vec \<Rightarrow> vec \<Rightarrow> vec" where
  "vmul r a b = map2 (fmul r) a b"

definition vec_reduce_all :: "rounding \<Rightarrow> vec \<Rightarrow> real" where
  "vec_reduce_all r v = (case v of [] \<Rightarrow> 0 | x # xs \<Rightarrow> foldl (fadd r) x xs)"

text \<open>
  Modelled from the spec: the store of the first \<open>count\<close> lanes of a register (a full store
  is the store of all the lanes), and the selection \<^verbatim>\<open>Vectorized::set(a, b, count)\<close> (the
  first \<open>count\<close> lanes of \<open>b\<close>, the other lanes of \<open>a\<close>), of the same SIMD abstraction.
\<close>

definition store_count :: "buffer \<Rightarrow> nat \<Rightarrow> vec \<Rightarrow> nat \<Rightarrow> buffer" where
  "store_count p off v count = fold (\<lambda>l b. b(off + l := v ! l)) [0..<min count (length v)] p"

definition vec_set :: "vec \<Rightarrow> vec \<Rightarrow> nat \<Rightarrow> vec" where
  "vec_set a b count = take count b @ drop count a"

text \<open>
  Modelled from the spec: \<^verbatim>\<open>convert_bfloat16_float\<close> (not among the sources) decodes a register
  of reduced precision into two registers of the accumulation precision (section 4.1):
  its lower half and its upper half. \<^verbatim>\<open>convert_float_bfloat16\<close> encodes two registers into
  one register of reduced precision, every lane rounded (section 4.2).
\<close>

definition convert_bfloat16_float :: "vec \<Rightarrow> vec \<times> vec" where
  "convert_bfloat16_float v = (take (length v div 2) v, drop (length v div 2) v)"

definition convert_float_bfloat16 :: "rounding \<Rightarrow> vec \<Rightarrow> vec \<Rightarrow> vec" where
  "convert_float_bfloat16 r a b = map r (a @ b)"

text \<open>
  Modelled from the spec: \<^verbatim>\<open>vec::map2\<close> and \<^verbatim>\<open>vec::map3\<close> (\<^verbatim>\<open>ATen/cpu/vec/functional.h\<close>, not
  among the sources) apply a function element by element over \<open>size'\<close> elements (section
  4.2) and store the result through the rounding of the output type. An input that is
  the output span itself is read before it is written, element by element.
\<close>

definition vec_map2 ::
  "rounding \<Rightarrow> (real \<Rightarrow> real \<Rightarrow> real) \<Rightarrow> buffer \<Rightarrow> nat \<Rightarrow> buffer \<Rightarrow> nat \<Rightarrow> buffer \<Rightarrow> nat \<Rightarrow>
   nat \<Rightarrow> buffer" where
  "vec_map2 st f out out_off in1 off1 in2 off2 size' =
     fold (\<lambda>d b. b(out_off + d := st (f (in1 (off1 + d)) (in2 (off2 + d))))) [0..<size'] out"

definition vec_map3 ::
  "rounding \<Rightarrow> (real \<Rightarrow> real \<Rightarrow> real \<Rightarrow> real) \<Rightarrow> buffer \<Rightarrow> nat \<Rightarrow> buffer \<Rightarrow> nat \<Rightarrow>
   buffer \<Rightarrow> nat \<Rightarrow> buffer \<Rightarrow> nat \<Rightarrow> nat \<Rightarrow> buffer" where
  "vec_map3 st f out out_off in1 off1 in2 off2 in3 off3 size' =
     fold (\<lambda>d b. b(out_off + d := st (f (in1 (off1 + d)) (in2 (off2 + d)) (in3 (off3 + d)))))
       [0..<size'] out"

text \<open>
  \<^verbatim>\<open>ColumnwiseMoments\<close>, the template (lines 90 to 117): the sum and the sum of squares of a
  strided block.
\<close>

definition ColumnwiseMoments_T ::
  "rounding \<Rightarrow> nat \<Rightarrow> buffer \<Rightarrow> nat \<Rightarrow> nat \<Rightarrow> nat \<Rightarrow> nat \<Rightarrow> real \<times> real" where
  "ColumnwiseMoments_T r K X_data off HxW C D =
     (let inner_size = D div K * K;
          accumulate = (\<lambda>x_vec (acc0_vec, acc1_vec).
             (vadd r acc0_vec x_vec, vadd r acc1_vec (vmul r x_vec x_vec)));
          (acc0_vec, acc1_vec) =
            fold (\<lambda>m acc.
                let X_ptr = off + m * C;
                    acc' = fold (\<lambda>d. accumulate (loadu K X_data (X_ptr + d)))
                             (map (\<lambda>b. b * K) [0..<inner_size div K]) acc
                in if D - inner_size > 0
                   then accumulate (loadu_count K X_data (X_ptr + inner_size) (D - inner_size)) acc'
                   else acc')
              [0..<HxW] (vec_splat K 0, vec_splat K 0)
      in (vec_reduce_all r acc0_vec, vec_reduce_all r acc1_vec))"

text \<open>
  The overload of \<^verbatim>\<open>ColumnwiseMoments\<close> for \<^verbatim>\<open>BFloat16\<close> (lines 119 to 158): \<open>K\<close> is
  \<^verbatim>\<open>bVec::size()\<close>, \<open>Kf\<close> is \<^verbatim>\<open>fVec::size()\<close>, and the accumulators are registers of \<^verbatim>\<open>float\<close>.
\<close>

definition ColumnwiseMoments_BFloat16 ::
  "rounding \<Rightarrow> nat \<Rightarrow> nat \<Rightarrow> buffer \<Rightarrow> nat \<Rightarrow> nat \<Rightarrow> nat \<Rightarrow> nat \<Rightarrow> real \<times> real" where
  "ColumnwiseMoments_BFloat16 r K Kf X_data off HxW C D =
     (let inner_size = D div K * K;
          zero = vec_splat Kf 0;
          (acc0_fvec, acc1_fvec) =
            fold (\<lambda>m acc.
                let X_ptr = off + m * C;
                    acc' = fold (\<lambda>d (acc0_fvec, acc1_fvec).
                               let (x_fvec0, x_fvec1) =
                                     convert_bfloat16_float (loadu K X_data (X_ptr + d))
                               in (vadd r acc0_fvec (vadd r x_fvec0 x_fvec1),
                                   vadd r acc1_fvec
                                     (vadd r (vmul r x_fvec0 x_fvec0) (vmul r x_fvec1 x_fvec1))))
                             (map (\<lambda>b. b * K) [0..<inner_size div K]) acc
                in if D - inner_size > 0 then
                     (case acc' of (acc0_fvec, acc1_fvec) \<Rightarrow>
                        let (x_fvec0, x_fvec1) =
                              convert_bfloat16_float
                                (loadu_count K X_data (X_ptr + inner_size) (D - inner_size))
                        in if D - inner_size > Kf then
                             let x_fvec1 = vec_set zero x_fvec1 (D - inner_size - Kf)
                             in (vadd r acc0_fvec (vadd r x_fvec0 x_fvec1),
                                 vadd r acc1_fvec
                                   (vadd r (vmul r x_fvec0 x_fvec0) (vmul r x_fvec1 x_fvec1)))
                           else
                             let x_fvec0 = vec_set zero x_fvec0 (D - inner_size)
                             in (vadd r acc0_fvec x_fvec0,
                                 vadd r acc1_fvec (vmul r x_fvec0 x_fvec0)))
                   else acc')
              [0..<HxW] (zero, zero)
      in (vec_reduce_all r acc0_fvec, vec_reduce_all r acc1_fvec))"

text \<open>Overload resolution takes the overload when \<^verbatim>\<open>T\<close> is \<^verbatim>\<open>BFloat16\<close>.\<close>

definition ColumnwiseMoments ::
  "numerics \<Rightarrow> buffer \<Rightarrow> nat \<Rightarrow> nat \<Rightarrow> nat \<Rightarrow> nat \<Rightarrow> real \<times> real" where
  "ColumnwiseMoments nm X_data off HxW C D =
     (if bfloat16_T nm
      then ColumnwiseMoments_BFloat16 (to_ACC nm) (vec_size_T nm) (vec_size_ACC nm)
             X_data off HxW C D
      else ColumnwiseMoments_T (to_ACC nm) (vec_size_T nm) X_data off HxW C D)"

text \<open>
  \<^verbatim>\<open>CalcMeanVar\<close>, the template (lines 160 to 179): both spans lie in the same scratch
  buffer.
\<close>

definition CalcMeanVar_T ::
  "rounding \<Rightarrow> buffer \<Rightarrow> nat \<Rightarrow> buffer \<Rightarrow> nat \<Rightarrow> nat \<Rightarrow> nat \<Rightarrow> buffer" where
  "CalcMeanVar_T r X_data X_ptr buf mean_ptr rstd_ptr C =
     (let buf1 = vec_map2 (\<lambda>x. x) (\<lambda>x y. fadd r x y) buf mean_ptr X_data X_ptr buf mean_ptr C
      in vec_map2 (\<lambda>x. x) (\<lambda>x y. fadd r (fmul r x x) y) buf1 rstd_ptr X_data X_ptr buf1 rstd_ptr C)"

text \<open>
  The specialization \<^verbatim>\<open>CalcMeanVar<BFloat16, float>\<close> (lines 181 to 224): one pass of the
  loop (lines 191 to 205), which is also the remainder (lines 208 to 222) when the loads
  and stores are partial: \<open>n\<close> is the element count of the register of \<^verbatim>\<open>BFloat16\<close>, \<open>n0\<close> and
  \<open>n1\<close> are the element counts of the two registers of \<^verbatim>\<open>float\<close>. A full load or store is
  one of all the lanes.
\<close>

definition calc_mean_var_block ::
  "rounding \<Rightarrow> nat \<Rightarrow> nat \<Rightarrow> buffer \<Rightarrow> nat \<Rightarrow> nat \<Rightarrow> nat \<Rightarrow> nat \<Rightarrow> nat \<Rightarrow> nat \<Rightarrow> nat \<Rightarrow>
   buffer \<Rightarrow> buffer" where
  "calc_mean_var_block r K Kf X_data X_ptr mean_ptr rstd_ptr d n n0 n1 buf =
     (let data_bvec = loadu_count K X_data (X_ptr + d) n;
          mean_fvec0 = loadu_count Kf buf (mean_ptr + d) n0;
          mean_fvec1 = loadu_count Kf buf (mean_ptr + d + Kf) n1;
          rstd_fvec0 = loadu_count Kf buf (rstd_ptr + d) n0;
          rstd_fvec1 = loadu_count Kf buf (rstd_ptr + d + Kf) n1;
          (data_fvec0, data_fvec1) = convert_bfloat16_float data_bvec;
          mean_fvec0 = vadd r data_fvec0 mean_fvec0;
          mean_fvec1 = vadd r data_fvec1 mean_fvec1;
          rstd_fvec0 = vadd r (vmul r data_fvec0 data_fvec0) rstd_fvec0;
          rstd_fvec1 = vadd r (vmul r data_fvec1 data_fvec1) rstd_fvec1;
          buf = store_count buf (mean_ptr + d) mean_fvec0 n0;
          buf = store_count buf (mean_ptr + d + Kf) mean_fvec1 n1;
          buf = store_count buf (rstd_ptr + d) rstd_fvec0 n0
      in store_count buf (rstd_ptr + d + Kf) rstd_fvec1 n1)"

definition CalcMeanVar_BFloat16 ::
  "rounding \<Rightarrow> nat \<Rightarrow> nat \<Rightarrow> buffer \<Rightarrow> nat \<Rightarrow> buffer \<Rightarrow> nat \<Rightarrow> nat \<Rightarrow> nat \<Rightarrow> buffer" where
  "CalcMeanVar_BFloat16 r K Kf X_data X_ptr buf mean_ptr rstd_ptr C =
     (let d = C div K * K;
          buf' = fold (\<lambda>d. calc_mean_var_block r K Kf X_data X_ptr mean_ptr rstd_ptr d K Kf Kf)
                   (map (\<lambda>b. b * K) [0..<C div K]) buf
      in if C - d > 0
         then calc_mean_var_block r K Kf X_data X_ptr mean_ptr rstd_ptr d (C - d)
                (if C - d > Kf then Kf else C - d) (if C - d > Kf then C - d - Kf else 0) buf'
         else buf')"

text \<open>\<^verbatim>\<open>CalcMeanVar<T, T_ACC>\<close> is the specialization when \<^verbatim>\<open>T\<close> is \<^verbatim>\<open>BFloat16\<close>.\<close>

definition CalcMeanVar ::
  "numerics \<Rightarrow> buffer \<Rightarrow> nat \<Rightarrow> buffer \<Rightarrow> nat \<Rightarrow> nat \<Rightarrow> nat \<Rightarrow> buffer" where
  "CalcMeanVar nm X_data X_ptr buf mean_ptr rstd_ptr C =
     (if bfloat16_T nm
      then CalcMeanVar_BFloat16 (to_ACC nm) (vec_size_T nm) (vec_size_ACC nm)
             X_data X_ptr buf mean_ptr rstd_ptr C
      else CalcMeanVar_T (to_ACC nm) X_data X_ptr buf mean_ptr rstd_ptr C)"

text \<open>\<^verbatim>\<open>ApplyScaleBias\<close>, the template (lines 226 to 241).\<close>

definition ApplyScaleBias_T ::
  "numerics \<Rightarrow> buffer \<Rightarrow> nat \<Rightarrow> buffer \<Rightarrow> nat \<Rightarrow> buffer \<Rightarrow> nat \<Rightarrow> buffer \<Rightarrow> nat \<Rightarrow> nat \<Rightarrow>
   buffer" where
  "ApplyScaleBias_T nm Y Y_ptr X_data X_ptr scale scale_ptr bias bias_ptr C =
     vec_map3 (to_T nm) (\<lambda>x scale bias. fadd (to_ACC nm) (fmul (to_ACC nm) x scale) bias)
       Y Y_ptr X_data X_ptr scale scale_ptr bias bias_ptr C"

text \<open>
  The specialization \<^verbatim>\<open>ApplyScaleBias<BFloat16, float>\<close> (lines 243 to 277): one pass of the
  loop (lines 254 to 263), which is also the remainder (lines 266 to 275) when the loads
  and the store are partial, with the element counts \<open>n\<close>, \<open>n0\<close> and \<open>n1\<close> as above.
\<close>

definition apply_scale_bias_block ::
  "numerics \<Rightarrow> buffer \<Rightarrow> nat \<Rightarrow> buffer \<Rightarrow> nat \<Rightarrow> buffer \<Rightarrow> nat \<Rightarrow> nat \<Rightarrow> nat \<Rightarrow> nat \<Rightarrow>
   nat \<Rightarrow> nat \<Rightarrow> buffer \<Rightarrow> buffer" where
  "apply_scale_bias_block nm X_data X_ptr scale scale_ptr bias bias_ptr d n n0 n1 Y_ptr Y =
     (let K = vec_size_T nm;
          Kf = vec_size_ACC nm;
          r = to_ACC nm;
          data_bvec = loadu_count K X_data (X_ptr + d) n;
          scale_fvec0 = loadu_count Kf scale (scale_ptr + d) n0;
          scale_fvec1 = loadu_count Kf scale (scale_ptr + d + Kf) n1;
          bias_fvec0 = loadu_count Kf bias (bias_ptr + d) n0;
          bias_fvec1 = loadu_count Kf bias (bias_ptr + d + Kf) n1;
          (data_fvec0, data_fvec1) = convert_bfloat16_float data_bvec;
          out0 = vadd r (vmul r data_fvec0 scale_fvec0) bias_fvec0;
          out1 = vadd r (vmul r data_fvec1 scale_fvec1) bias_fvec1
      in store_count Y (Y_ptr + d) (convert_float_bfloat16 (to_T nm) out0 out1) n)"

definition ApplyScaleBias_BFloat16 ::
  "numerics \<Rightarrow> buffer \<Rightarrow> nat \<Rightarrow> buffer \<Rightarrow> nat \<Rightarrow> buffer \<Rightarrow> nat \<Rightarrow> buffer \<Rightarrow> nat \<Rightarrow> nat \<Rightarrow>
   buffer" where
  "ApplyScaleBias_BFloat16 nm Y Y_ptr X_data X_ptr scale scale_ptr bias bias_ptr C =
     (let K = vec_size_T nm;
          Kf = vec_size_ACC nm;
          d = C div K * K;
          Y' = fold (\<lambda>d. apply_scale_bias_block nm X_data X_ptr scale scale_ptr bias bias_ptr d
                           K Kf Kf Y_ptr)
                 (map (\<lambda>b. b * K) [0..<C div K]) Y
      in if C - d > 0
         then apply_scale_bias_block nm X_data X_ptr scale scale_ptr bias bias_ptr d (C - d)
                (if C - d > Kf then Kf else C - d) (if C - d > Kf then C - d - Kf else 0) Y_ptr Y'
         else Y')"

text \<open>\<^verbatim>\<open>ApplyScaleBias<T, T_ACC>\<close> is the specialization when \<^verbatim>\<open>T\<close> is \<^verbatim>\<open>BFloat16\<close>.\<close>

definition ApplyScaleBias ::
  "numerics \<Rightarrow> buffer \<Rightarrow> nat \<Rightarrow> buffer \<Rightarrow> nat \<Rightarrow> buffer \<Rightarrow> nat \<Rightarrow> buffer \<Rightarrow> nat \<Rightarrow> nat \<Rightarrow>
   buffer" where
  "ApplyScaleBias nm =
     (if bfloat16_T nm then ApplyScaleBias_BFloat16 nm else ApplyScaleBias_T nm)"

text \<open>The output buffers together with the two scratch tensors of the function.\<close>

record cl_buffers = fwd_buffers +
  buffer_data :: buffer
  tmp_buffer_data :: buffer

text \<open>impl-1, the body of the loop over the units \<open>i\<close> with their \<open>(n, g)\<close> (lines 337 to 371).\<close>

definition channels_last_unit ::
  "numerics \<Rightarrow> buffer \<Rightarrow> buffer option \<Rightarrow> buffer option \<Rightarrow> nat \<Rightarrow> nat \<Rightarrow> nat \<Rightarrow> real \<Rightarrow>
   nat \<Rightarrow> nat \<times> nat \<Rightarrow> cl_buffers \<Rightarrow> cl_buffers" where
  "channels_last_unit nm X_data gamma_data beta_data C HxW G eps i ng st =
     (case ng of (n, g) \<Rightarrow>
      let D = C div G;
          r = to_ACC nm;
          s = fdiv r 1 (r (real (D * HxW)));
          (sum_val, sumsq_val) =
            ColumnwiseMoments nm X_data (n * HxW * C + g * D) HxW C D;
          mean_val = fmul r sum_val s;
          var_val = max (fsub r (fmul r sumsq_val s) (fmul r mean_val mean_val)) 0;
          rstd_val = fdiv r 1 (fsqrt r (fadd r var_val eps));
          scale_ptr = i * 2 * D;
          bias_ptr = scale_ptr + D;
          buf = fold (\<lambda>d b.
                   let c = g * D + d;
                       b' = b(scale_ptr + d :=
                              fmul r rstd_val (case gamma_data of None \<Rightarrow> 1 | Some gm \<Rightarrow> gm c))
                   in b'(bias_ptr + d :=
                           fadd r (fmul r (- b' (scale_ptr + d)) mean_val)
                             (case beta_data of None \<Rightarrow> 0 | Some bt \<Rightarrow> bt c)))
                 [0..<D] (buffer_data st);
          Y' = fold (\<lambda>m Y.
                  ApplyScaleBias nm Y (n * HxW * C + m * C + g * D)
                    X_data (n * HxW * C + m * C + g * D) buf scale_ptr buf bias_ptr D)
                 [0..<HxW] (Y_data st)
      in st\<lparr>Y_data := Y',
             mean_data := (mean_data st)(i := to_PT nm mean_val),
             rstd_data := (rstd_data st)(i := to_PT nm rstd_val),
             buffer_data := buf\<rparr>)"

definition channels_last_impl1 ::
  "numerics \<Rightarrow> thread_pool \<Rightarrow> buffer \<Rightarrow> buffer option \<Rightarrow> buffer option \<Rightarrow>
   nat \<Rightarrow> nat \<Rightarrow> nat \<Rightarrow> nat \<Rightarrow> real \<Rightarrow> cl_buffers \<Rightarrow> cl_buffers" where
  "channels_last_impl1 nm pool X_data gamma_data beta_data N C HxW G eps st =
     parallel_for pool 0 (N * G) 1
       (\<lambda>tid begin end st.
          snd (fold (\<lambda>i (ng, st).
                  (data_index_step ng N G,
                   channels_last_unit nm X_data gamma_data beta_data C HxW G eps i ng st))
                 [begin..<end] (data_index_init begin N G, st)))
       st"

text \<open>impl-2, step 1 (lines 400 to 413): every thread accumulates into its own region.\<close>

definition channels_last_accumulate ::
  "numerics \<Rightarrow> thread_pool \<Rightarrow> buffer \<Rightarrow> nat \<Rightarrow> nat \<Rightarrow> nat \<Rightarrow> buffer \<Rightarrow> buffer" where
  "channels_last_accumulate nm pool X_data N C HxW buf =
     parallel_for pool 0 (N * HxW) 1
       (\<lambda>tid begin end buf.
          let buffer_ptr = tid * N * 2 * C in
          snd (fold (\<lambda>i (nm', b).
                  let mean_ptr = buffer_ptr + fst nm' * 2 * C;
                      rstd_ptr = mean_ptr + C
                  in (data_index_step nm' N HxW,
                      CalcMeanVar nm X_data (i * C) b mean_ptr rstd_ptr C))
                 [begin..<end] (data_index_init begin N HxW, buf)))
       buf"

text \<open>impl-2, step 2 (lines 416 to 432): the serial combination over the threads.\<close>

definition channels_last_combine ::
  "numerics \<Rightarrow> nat \<Rightarrow> buffer \<Rightarrow> nat \<Rightarrow> nat \<Rightarrow> nat \<Rightarrow> nat \<Rightarrow> real \<Rightarrow> buffer \<Rightarrow> buffer" where
  "channels_last_combine nm nthreads buf N C HxW G eps tmp =
     (let D = C div G;
          r = to_ACC nm;
          s = fdiv r 1 (r (real (D * HxW)))
      in fold (\<lambda>n. fold (\<lambda>g tmp.
             let (sum_val, sumsq_val) =
                   fold (\<lambda>d. fold (\<lambda>t (mv, rv).
                            let buffer_ptr = t * N * 2 * C + n * 2 * C
                            in (fadd r mv (buf (buffer_ptr + g * D + d)),
                                fadd r rv (buf (buffer_ptr + g * D + d + C))))
                          [0..<nthreads])
                     [0..<D] (0, 0);
                 mean_val = fmul r sum_val s;
                 var_val = max (fsub r (fmul r sumsq_val s) (fmul r mean_val mean_val)) 0;
                 rstd_val = fdiv r 1 (fsqrt r (fadd r var_val eps))
             in tmp(n * 2 * G + 2 * g := mean_val, n * 2 * G + 2 * g + 1 := rstd_val))
           [0..<G])
         [0..<N] tmp)"

text \<open>impl-2, step 3 (lines 444 to 459): scale and bias for every \<open>(n, c)\<close>.\<close>

definition channels_last_scale_bias ::
  "numerics \<Rightarrow> buffer option \<Rightarrow> buffer option \<Rightarrow> nat \<Rightarrow> nat \<Rightarrow> nat \<Rightarrow> cl_buffers \<Rightarrow> cl_buffers" where
  "channels_last_scale_bias nm gamma_data beta_data N C G st =
     (let D = C div G;
          r = to_ACC nm
      in fold (\<lambda>n. fold (\<lambda>g st.
             let scale_ptr = n * 2 * C;
                 bias_ptr = scale_ptr + C;
                 mean_val = tmp_buffer_data st (n * 2 * G + 2 * g);
                 rstd_val = tmp_buffer_data st (n * 2 * G + 2 * g + 1);
                 buf = fold (\<lambda>d b.
                          let c = g * D + d;
                              b' = b(scale_ptr + c :=
                                     fmul r rstd_val (case gamma_data of None \<Rightarrow> 1 | Some gm \<Rightarrow> gm c))
                          in b'(bias_ptr + c :=
                                  fadd r (fmul r (- b' (scale_ptr + c)) mean_val)
                                    (case beta_data of None \<Rightarrow> 0 | Some bt \<Rightarrow> bt c)))
                        [0..<D] (buffer_data st)
             in st\<lparr>mean_data := (mean_data st)(n * G + g := to_PT nm mean_val),
                    rstd_data := (rstd_data st)(n * G + g := to_PT nm rstd_val),
                    buffer_data := buf\<rparr>)
           [0..<G])
         [0..<N] st)"

text \<open>impl-2, step 4 (lines 466 to 477).\<close>

definition channels_last_apply ::
  "numerics \<Rightarrow> thread_pool \<Rightarrow> buffer \<Rightarrow> buffer \<Rightarrow> nat \<Rightarrow> nat \<Rightarrow> nat \<Rightarrow> buffer \<Rightarrow> buffer" where
  "channels_last_apply nm pool X_data buf N C HxW Y =
     parallel_for pool 0 (N * HxW) 1
       (\<lambda>tid begin end Y.
          snd (fold (\<lambda>i (nm', Y).
                  let scale_ptr = fst nm' * 2 * C;
                      bias_ptr = scale_ptr + C
                  in (data_index_step nm' N HxW,
                      ApplyScaleBias nm Y (i * C) X_data (i * C) buf scale_ptr buf bias_ptr C))
                 [begin..<end] (data_index_init begin N HxW, Y)))
       Y"

definition channels_last_impl2 ::
  "numerics \<Rightarrow> thread_pool \<Rightarrow> buffer \<Rightarrow> buffer option \<Rightarrow> buffer option \<Rightarrow>
   nat \<Rightarrow> nat \<Rightarrow> nat \<Rightarrow> nat \<Rightarrow> real \<Rightarrow> cl_buffers \<Rightarrow> cl_buffers" where
  "channels_last_impl2 nm pool X_data gamma_data beta_data N C HxW G eps st =
     (let buf = channels_last_accumulate nm pool X_data N C HxW (\<lambda>_. 0);
          tmp = channels_last_combine nm (num_threads pool) buf N C HxW G eps (tmp_buffer_data st);
          st' = channels_last_scale_bias nm gamma_data beta_data N C G
                  (st\<lparr>buffer_data := buf, tmp_buffer_data := tmp\<rparr>)
      in st'\<lparr>Y_data := channels_last_apply nm pool X_data (buffer_data st') N C HxW (Y_data st')\<rparr>)"

definition feature_map_threshold :: nat where
  "feature_map_threshold = 1024"

text \<open>
  \<^verbatim>\<open>GroupNormKernelImplChannelsLastInternal\<close> (lines 279 to 479). \<open>uninit\<close> is the content of
  the memory that \<^verbatim>\<open>at::empty\<close> returns for the scratch tensors.
\<close>

definition GroupNormKernelImplChannelsLastInternal ::
  "numerics \<Rightarrow> thread_pool \<Rightarrow> buffer \<Rightarrow> tensor \<Rightarrow> tensor option \<Rightarrow> tensor option \<Rightarrow>
   nat \<Rightarrow> nat \<Rightarrow> nat \<Rightarrow> nat \<Rightarrow> real \<Rightarrow> fwd_buffers \<Rightarrow> fwd_buffers result" where
  "GroupNormKernelImplChannelsLastInternal nm pool uninit X gamma beta N C HxW ngroup eps s =
     (if int64 (numel X) \<noteq> int64 N * int64 C * int64 HxW then Inl (CheckFailed, s)
      else if \<not> (gamma = None \<or> numel (the gamma) = C) then Inl (CheckFailed, s)
      else if \<not> (beta = None \<or> numel (the beta) = C) then Inl (CheckFailed, s)
      else if ngroup = 0 then Inl (IntegerDivideByZero, s)
      else
        let G = ngroup;
            st = fwd_buffers.extend s \<lparr>buffer_data = uninit, tmp_buffer_data = uninit\<rparr>;
            st' = (if HxW < feature_map_threshold
                   then channels_last_impl1 nm pool (data_ptr X) (map_option data_ptr gamma)
                          (map_option data_ptr beta) N C HxW G eps st
                   else channels_last_impl2 nm pool (data_ptr X) (map_option data_ptr gamma)
                          (map_option data_ptr beta) N C HxW G eps st)
        in Inr (fwd_buffers.truncate st'))"

section \<open>The forward entry point\<close>

datatype memory_format = Contiguous | ChannelsLast | ChannelsLast3d | Preserve

text \<open>
  \<^verbatim>\<open>static_cast<scalar_t>(eps)\<close> of a \<^verbatim>\<open>double\<close>: to \<^verbatim>\<open>BFloat16\<close> the conversion goes through
  \<^verbatim>\<open>float\<close>.
\<close>

definition static_cast :: "scalar_type \<Rightarrow> real \<Rightarrow> real" where
  "static_cast t x =
     (case t of BFloat16 \<Rightarrow> round_to BFloat16 (round_to Float x) | _ \<Rightarrow> round_to t x)"

text \<open>The template instance \<^verbatim>\<open><T, PT>\<close>, with the lane counts of the build.\<close>

definition instance_of :: "(scalar_type \<Rightarrow> nat) \<Rightarrow> scalar_type \<Rightarrow> scalar_type \<Rightarrow> numerics" where
  "instance_of lanes T PT =
     \<lparr>to_T = round_to T, to_ACC = round_to (opmath_type T), to_PT = round_to PT,
      vec_size_T = lanes T, vec_size_ACC = lanes (opmath_type T), vec_size_PT = lanes PT,
      bfloat16_T = (T = BFloat16), float_PT = (PT = Float)\<rparr>"

text \<open>
  \<^verbatim>\<open>GroupNormKernelImpl\<close> (lines 481 to 525). \<open>fmt\<close> is \<^verbatim>\<open>X.suggest_memory_format()\<close>,
  \<open>scalar_t\<close> is \<^verbatim>\<open>X.scalar_type()\<close> and \<open>mixed_type\<close> is what \<^verbatim>\<open>is_mixed_type\<close> (not among
  the sources) returns.
\<close>

definition GroupNormKernelImpl ::
  "(scalar_type \<Rightarrow> nat) \<Rightarrow> thread_pool \<Rightarrow> buffer \<Rightarrow> memory_format \<Rightarrow> scalar_type \<Rightarrow> bool \<Rightarrow>
   tensor \<Rightarrow> tensor option \<Rightarrow> tensor option \<Rightarrow> nat \<Rightarrow> nat \<Rightarrow> nat \<Rightarrow> nat \<Rightarrow> real \<Rightarrow>
   fwd_buffers \<Rightarrow> fwd_buffers result" where
  "GroupNormKernelImpl lanes pool uninit fmt scalar_t mixed_type X gamma beta N C HxW ngroup eps s =
     (let param_t = opmath_type scalar_t;
          nm = (if mixed_type then instance_of lanes scalar_t param_t
                else instance_of lanes scalar_t scalar_t)
      in case fmt of
           Contiguous \<Rightarrow>
             GroupNormKernelImplInternal nm RowwiseMoments pool X gamma beta N C HxW ngroup
               (static_cast scalar_t eps) s
         | ChannelsLast \<Rightarrow>
             GroupNormKernelImplChannelsLastInternal nm pool uninit X gamma beta N C HxW ngroup
               (static_cast scalar_t eps) s
         | ChannelsLast3d \<Rightarrow>
             GroupNormKernelImplChannelsLastInternal nm pool uninit X gamma beta N C HxW ngroup
               (static_cast scalar_t eps) s
         | Preserve \<Rightarrow> Inl (UnsupportedMemoryFormat, s))"

section \<open>Backward\<close>

record grad_buffers =
  ds_data :: buffer
  db_data :: buffer

text \<open>
  \<^verbatim>\<open>ComputeInternalGradients\<close> (lines 527 to 566), the body of the loop over \<open>i\<close>. The template
  adds a \<^verbatim>\<open>Vectorized<T>\<close> to a \<^verbatim>\<open>Vectorized<PT>\<close>, so it is instantiated with \<^verbatim>\<open>PT = T\<close>.
\<close>

definition internal_gradients_row ::
  "numerics \<Rightarrow> nat \<Rightarrow> buffer \<Rightarrow> buffer \<Rightarrow> nat \<Rightarrow> grad_buffers \<Rightarrow> grad_buffers" where
  "internal_gradients_row nm HxW dY X i s =
     (let K = vec_size_T nm;
          r = to_PT nm;
          inner_size = HxW div K * K;
          dY_ptr = i * HxW;
          X_ptr = i * HxW;
          (ds_vec, db_vec) =
            fold (\<lambda>j (ds_vec, db_vec).
                let dy_vec = loadu K dY (dY_ptr + j);
                    x_vec = loadu K X (X_ptr + j)
                in (vadd r ds_vec (vmul r dy_vec x_vec), vadd r db_vec dy_vec))
              (map (\<lambda>b. b * K) [0..<inner_size div K]) (vec_splat K 0, vec_splat K 0);
          ds_val = foldl (fadd r) 0 ds_vec;
          db_val = foldl (fadd r) 0 db_vec;
          (ds_val, db_val) =
            fold (\<lambda>j (ds_val, db_val).
                (fadd r ds_val (fmul r (dY (dY_ptr + j)) (X (X_ptr + j))),
                 fadd r db_val (dY (dY_ptr + j))))
              [inner_size..<HxW] (ds_val, db_val)
      in s\<lparr>ds_data := (ds_data s)(i := ds_val), db_data := (db_data s)(i := db_val)\<rparr>)"

text \<open>
  The specialization \<^verbatim>\<open>ComputeInternalGradients<BFloat16, float>\<close> (lines 568 to 613), the
  body of the loop over \<open>i\<close>: \<open>K\<close> is \<^verbatim>\<open>bVec::size()\<close>, the accumulators are \<^verbatim>\<open>fVec\<close>.
\<close>

definition internal_gradients_row_BFloat16 ::
  "numerics \<Rightarrow> nat \<Rightarrow> buffer \<Rightarrow> buffer \<Rightarrow> nat \<Rightarrow> grad_buffers \<Rightarrow> grad_buffers" where
  "internal_gradients_row_BFloat16 nm HxW dY X i s =
     (let K = vec_size_T nm;
          r = to_PT nm;
          inner_size = HxW div K * K;
          dY_ptr = i * HxW;
          X_ptr = i * HxW;
          (ds_vec, db_vec) =
            fold (\<lambda>j (ds_vec, db_vec).
                let dy_bvec = loadu K dY (dY_ptr + j);
                    x_bvec = loadu K X (X_ptr + j);
                    (x_fvec0, x_fvec1) = convert_bfloat16_float x_bvec;
                    (dy_fvec0, dy_fvec1) = convert_bfloat16_float dy_bvec;
                    ds_vec1 = vadd r ds_vec (vmul r dy_fvec0 x_fvec0);
                    ds_vec2 = vadd r ds_vec1 (vmul r dy_fvec1 x_fvec1)
                in (ds_vec2, vadd r (vadd r db_vec dy_fvec0) dy_fvec1))
              (map (\<lambda>b. b * K) [0..<inner_size div K])
              (vec_splat (vec_size_PT nm) 0, vec_splat (vec_size_PT nm) 0);
          ds_val = foldl (fadd r) 0 ds_vec;
          db_val = foldl (fadd r) 0 db_vec;
          (ds_val, db_val) =
            fold (\<lambda>j (ds_val, db_val).
                (fadd r ds_val (fmul r (dY (dY_ptr + j)) (X (X_ptr + j))),
                 fadd r db_val (dY (dY_ptr + j))))
              [inner_size..<HxW] (ds_val, db_val)
      in s\<lparr>ds_data := (ds_data s)(i := ds_val), db_data := (db_data s)(i := db_val)\<rparr>)"

text \<open>
  \<^verbatim>\<open>ComputeInternalGradients\<close>: the instance \<^verbatim>\<open><BFloat16, float>\<close> is the specialization, every
  other instance is the template.
\<close>

definition gradients_row ::
  "numerics \<Rightarrow> nat \<Rightarrow> buffer \<Rightarrow> buffer \<Rightarrow> nat \<Rightarrow> grad_buffers \<Rightarrow> grad_buffers" where
  "gradients_row nm =
     (if bfloat16_T nm \<and> float_PT nm then internal_gradients_row_BFloat16 nm
      else internal_gradients_row nm)"

definition ComputeInternalGradients ::
  "numerics \<Rightarrow> thread_pool \<Rightarrow> nat \<Rightarrow> nat \<Rightarrow> nat \<Rightarrow> buffer \<Rightarrow> buffer \<Rightarrow>
   grad_buffers \<Rightarrow> grad_buffers" where
  "ComputeInternalGradients nm pool N C HxW dY X s =
     parallel_for pool 0 (N * C) 1
       (\<lambda>tid start end. fold (gradients_row nm HxW dY X) [start..<end]) s"

text \<open>\<^verbatim>\<open>CalcDsDb\<close> (lines 615 to 636): the loop runs for \<open>j = 0, K, 2 K, ...\<close> below \<open>d\<close>.\<close>

definition CalcDsDb ::
  "rounding \<Rightarrow> nat \<Rightarrow> buffer \<Rightarrow> nat \<Rightarrow> buffer \<Rightarrow> nat \<Rightarrow> buffer option \<Rightarrow> nat \<Rightarrow> nat \<Rightarrow>
   vec \<times> vec" where
  "CalcDsDb r K ds ds_ptr db db_ptr gamma gamma_ptr d =
     fold (\<lambda>j (ds_vec, db_vec).
         let gamma_vec = (case gamma of None \<Rightarrow> vec_splat K 1
                          | Some gm \<Rightarrow> loadu K gm (gamma_ptr + j))
         in (vadd r ds_vec (vmul r (loadu K ds (ds_ptr + j)) gamma_vec),
             vadd r db_vec (vmul r (loadu K db (db_ptr + j)) gamma_vec)))
       (map (\<lambda>b. b * K) [0..<(d + K - 1) div K]) (vec_splat K 0, vec_splat K 0)"

text \<open>
  \<^verbatim>\<open>GroupNormInputBackward\<close> (lines 638 to 692), the body of the loop over the units: first
  the two sums over the channels of the group (lines 665 to 675), then the coefficients
  and the writes (lines 676 to 689).
\<close>

definition input_backward_sums ::
  "numerics \<Rightarrow> nat \<Rightarrow> nat \<Rightarrow> buffer option \<Rightarrow> buffer \<Rightarrow> buffer \<Rightarrow> nat \<Rightarrow> real \<times> real" where
  "input_backward_sums nm D g gamma ds db i =
     (let r = to_PT nm;
          K = vec_size_PT nm;
          d = D div K * K;
          ds_ptr = i * D;
          db_ptr = i * D;
          gamma_ptr = g * D;
          (ds_arr, db_arr) = CalcDsDb r K ds ds_ptr db db_ptr gamma gamma_ptr d;
          ds_val = foldl (fadd r) 0 ds_arr;
          db_val = foldl (fadd r) 0 db_arr
      in fold (\<lambda>j (ds_val, db_val).
             let gamma_v = (case gamma of None \<Rightarrow> 1 | Some gm \<Rightarrow> gm (g * D + j))
             in (fadd r ds_val (fmul r (ds (ds_ptr + j)) gamma_v),
                 fadd r db_val (fmul r (db (db_ptr + j)) gamma_v)))
           [d..<D] (ds_val, db_val))"

definition input_backward_unit ::
  "numerics \<Rightarrow> nat \<Rightarrow> nat \<Rightarrow> nat \<Rightarrow> buffer \<Rightarrow> buffer \<Rightarrow> buffer \<Rightarrow> buffer \<Rightarrow> buffer option \<Rightarrow>
   buffer \<Rightarrow> buffer \<Rightarrow> nat \<Rightarrow> buffer \<Rightarrow> buffer" where
  "input_backward_unit nm C HxW G dY X mean rstd gamma ds db i dX =
     (let D = C div G;
          r = to_PT nm;
          s = fdiv r 1 (r (real (D * HxW)));
          g = i mod G;
          (ds_val, db_val) = input_backward_sums nm D g gamma ds db i;
          c2 = fmul r (fmul r (fmul r (fmul r (fsub r (fmul r db_val (mean i)) ds_val) (rstd i))
                 (rstd i)) (rstd i)) s;
          c3 = fsub r (fmul r (- c2) (mean i)) (fmul r (fmul r db_val (rstd i)) s)
      in fold (\<lambda>j dX.
             let c = g * D + j;
                 c1 = fmul r (rstd i) (case gamma of None \<Rightarrow> 1 | Some gm \<Rightarrow> gm c)
             in fold (\<lambda>k dX. dX((i * D + j) * HxW + k :=
                         to_T nm (fadd r (fadd r (fmul r c1 (dY ((i * D + j) * HxW + k)))
                                            (fmul r c2 (X ((i * D + j) * HxW + k)))) c3)))
                  [0..<HxW] dX)
           [0..<D] dX)"

definition GroupNormInputBackward ::
  "numerics \<Rightarrow> thread_pool \<Rightarrow> nat \<Rightarrow> nat \<Rightarrow> nat \<Rightarrow> nat \<Rightarrow> buffer \<Rightarrow> buffer \<Rightarrow> buffer \<Rightarrow> buffer \<Rightarrow>
   buffer option \<Rightarrow> buffer \<Rightarrow> buffer \<Rightarrow> buffer \<Rightarrow> buffer" where
  "GroupNormInputBackward nm pool N C HxW G dY X mean rstd gamma ds db dX =
     parallel_for pool 0 (N * G) 1
       (\<lambda>tid start end.
          fold (input_backward_unit nm C HxW G dY X mean rstd gamma ds db) [start..<end]) dX"

text \<open>\<^verbatim>\<open>GammaBackward\<close> (lines 694 to 722).\<close>

definition GammaBackward ::
  "numerics \<Rightarrow> thread_pool \<Rightarrow> nat \<Rightarrow> nat \<Rightarrow> nat \<Rightarrow> buffer \<Rightarrow> buffer \<Rightarrow> buffer \<Rightarrow> buffer \<Rightarrow>
   buffer \<Rightarrow> buffer" where
  "GammaBackward nm pool N C G mean rstd ds db dgamma =
     (let D = C div G;
          K = vec_size_PT nm;
          r = to_PT nm
      in parallel_for pool 0 D K
           (\<lambda>tid start end dgamma.
              let zeroed = fold (\<lambda>i dg. fold (\<lambda>l dg. dg(i * D + start + l := 0))
                                          [0..<end - start] dg) [0..<G] dgamma
              in fold (\<lambda>i dg.
                     let ds_ptr = i * D;
                         db_ptr = i * D;
                         g = i mod G
                     in fold (\<lambda>j dg.
                            let c = g * D + j
                            in dg(c := fadd r (dg c)
                                         (fmul r (fsub r (ds (ds_ptr + j))
                                                    (fmul r (db (db_ptr + j)) (mean i))) (rstd i))))
                          [start..<end] dg)
                   [0..<N * G] zeroed)
           dgamma)"

text \<open>\<^verbatim>\<open>BetaBackward\<close> (lines 724 to 736).\<close>

definition BetaBackward ::
  "numerics \<Rightarrow> thread_pool \<Rightarrow> nat \<Rightarrow> nat \<Rightarrow> buffer \<Rightarrow> buffer \<Rightarrow> buffer" where
  "BetaBackward nm pool N C db dbeta =
     (let K = vec_size_PT nm;
          r = to_PT nm
      in parallel_for pool 0 C K
           (\<lambda>tid start end dbeta.
              let zeroed = fold (\<lambda>l db'. db'(start + l := 0)) [0..<end - start] dbeta
              in fold (\<lambda>i dbt.
                     let db_ptr = i * C
                     in fold (\<lambda>j dbt. dbt(j := fadd r (dbt j) (db (db_ptr + j)))) [start..<end] dbt)
                   [0..<N] zeroed)
           dbeta)"

text \<open>The data of the three output tensors; \<open>None\<close> is an undefined tensor, a null pointer.\<close>

record bwd_buffers =
  dX_data :: "buffer option"
  dgamma_data :: "buffer option"
  dbeta_data :: "buffer option"

text \<open>
  \<^verbatim>\<open>GroupNormBackwardKernelImplInternal\<close> (lines 738 to 793). \<^verbatim>\<open>C / G\<close> is evaluated in
  \<^verbatim>\<open>GroupNormInputBackward\<close> and in \<^verbatim>\<open>GammaBackward\<close> only.
\<close>

definition GroupNormBackwardKernelImplInternal ::
  "numerics \<Rightarrow> thread_pool \<Rightarrow> buffer \<Rightarrow> tensor \<Rightarrow> tensor \<Rightarrow> tensor \<Rightarrow> tensor \<Rightarrow> tensor option \<Rightarrow>
   nat \<Rightarrow> nat \<Rightarrow> nat \<Rightarrow> nat \<Rightarrow> bwd_buffers \<Rightarrow> bwd_buffers result" where
  "GroupNormBackwardKernelImplInternal nm pool uninit dY X mean rstd gamma N C HxW ngroup s =
     (if int64 (numel dY) \<noteq> int64 N * int64 C * int64 HxW then Inl (CheckFailed, s)
      else if int64 (numel X) \<noteq> int64 N * int64 C * int64 HxW then Inl (CheckFailed, s)
      else if int64 (numel mean) \<noteq> int64 N * int64 ngroup then Inl (CheckFailed, s)
      else if int64 (numel rstd) \<noteq> int64 N * int64 ngroup then Inl (CheckFailed, s)
      else if \<not> (gamma = None \<or> numel (the gamma) = C) then Inl (CheckFailed, s)
      else
        let gamma_data = map_option data_ptr gamma;
            grads = ComputeInternalGradients nm pool N C HxW (data_ptr dY) (data_ptr X)
                      \<lparr>ds_data = uninit, db_data = uninit\<rparr>
        in if dX_data s \<noteq> None \<and> ngroup = 0 then Inl (IntegerDivideByZero, s)
           else
             let s1 = s\<lparr>dX_data :=
                        map_option (GroupNormInputBackward nm pool N C HxW ngroup (data_ptr dY)
                                      (data_ptr X) (data_ptr mean) (data_ptr rstd) gamma_data
                                      (ds_data grads) (db_data grads)) (dX_data s)\<rparr>
             in if dgamma_data s1 \<noteq> None \<and> ngroup = 0 then Inl (IntegerDivideByZero, s1)
                else
                  let s2 = s1\<lparr>dgamma_data :=
                              map_option (GammaBackward nm pool N C ngroup (data_ptr mean)
                                            (data_ptr rstd) (ds_data grads) (db_data grads))
                                (dgamma_data s1)\<rparr>
                  in Inr (s2\<lparr>dbeta_data :=
                              map_option (BetaBackward nm pool N C (db_data grads))
                                (dbeta_data s2)\<rparr>))"

text \<open>
  \<^verbatim>\<open>GroupNormBackwardKernelImpl\<close> (lines 795 to 823): the mixed instance is
  \<^verbatim>\<open><BFloat16, float>\<close>, whatever \<^verbatim>\<open>X.scalar_type()\<close> is.
\<close>

definition GroupNormBackwardKernelImpl ::
  "(scalar_type \<Rightarrow> nat) \<Rightarrow> thread_pool \<Rightarrow> buffer \<Rightarrow> scalar_type \<Rightarrow> bool \<Rightarrow>
   tensor \<Rightarrow> tensor \<Rightarrow> tensor \<Rightarrow> tensor \<Rightarrow> tensor option \<Rightarrow>
   nat \<Rightarrow> nat \<Rightarrow> nat \<Rightarrow> nat \<Rightarrow> bwd_buffers \<Rightarrow> bwd_buffers result" where
  "GroupNormBackwardKernelImpl lanes pool uninit scalar_t mixed_type dY X mean rstd gamma
       N C HxW ngroup s =
     (if mixed_type
      then GroupNormBackwardKernelImplInternal (instance_of lanes BFloat16 Float) pool uninit
             dY X mean rstd gamma N C HxW ngroup s
      else GroupNormBackwardKernelImplInternal (instance_of lanes scalar_t scalar_t) pool uninit
             dY X mean rstd gamma N C HxW ngroup s)"

section \<open>The input gradient as the specification states it\<close>

text \<open>
  Modelled from the spec: section 4.6, in exact arithmetic, for the element \<open>[n, c, k]\<close> of the
  packed layout with \<open>c\<close> in group \<open>g\<close>: \<open>ds\<close> and \<open>db\<close> of section 3, their sums over the group
  weighted by \<open>gamma\<close> (or 1), and the closed form.
\<close>

definition gamma_or_one :: "buffer option \<Rightarrow> nat \<Rightarrow> real" where
  "gamma_or_one gamma c = (case gamma of None \<Rightarrow> 1 | Some gm \<Rightarrow> gm c)"

definition ds_spec :: "buffer \<Rightarrow> buffer \<Rightarrow> nat \<Rightarrow> nat \<Rightarrow> nat \<Rightarrow> nat \<Rightarrow> real" where
  "ds_spec dY X C HxW n c =
     (\<Sum>k<HxW. dY ((n * C + c) * HxW + k) * X ((n * C + c) * HxW + k))"

definition db_spec :: "buffer \<Rightarrow> nat \<Rightarrow> nat \<Rightarrow> nat \<Rightarrow> nat \<Rightarrow> real" where
  "db_spec dY C HxW n c = (\<Sum>k<HxW. dY ((n * C + c) * HxW + k))"

definition dX_spec ::
  "buffer \<Rightarrow> buffer \<Rightarrow> buffer \<Rightarrow> buffer \<Rightarrow> buffer option \<Rightarrow> nat \<Rightarrow> nat \<Rightarrow> nat \<Rightarrow>
   nat \<Rightarrow> nat \<Rightarrow> nat \<Rightarrow> nat \<Rightarrow> real" where
  "dX_spec dY X mean rstd gamma C HxW G n g c k =
     (let D = C div G;
          s = 1 / real (D * HxW);
          ds_g = (\<Sum>j<D. ds_spec dY X C HxW n (g * D + j) * gamma_or_one gamma (g * D + j));
          db_g = (\<Sum>j<D. db_spec dY C HxW n (g * D + j) * gamma_or_one gamma (g * D + j));
          c1 = rstd (n * G + g) * gamma_or_one gamma c;
          c2 = (db_g * mean (n * G + g) - ds_g) * rstd (n * G + g) ^ 3 * s;
          c3 = - c2 * mean (n * G + g) - db_g * rstd (n * G + g) * s
      in c1 * dY ((n * C + c) * HxW + k) + c2 * X ((n * C + c) * HxW + k) + c3)"

section \<open>The interleaved forward as the specification states it\<close>

text \<open>
  Modelled from the spec: sections 4.3 and 4.4, in exact arithmetic, on the interleaved
  layout \<open>[N, HxW, C]\<close>: the sum and the sum of squares of the group \<open>g\<close> of the sample \<open>n\<close>,
  \<open>mean = sum / (D * HxW)\<close>, \<open>var = max (sumSq / (D * HxW) - mean\<^sup>2) 0\<close>,
  \<open>rstd = 1 / sqrt (var + eps)\<close>, and \<open>y = x * scale + bias\<close> with \<open>scale = rstd * gamma\<close> and
  \<open>bias = - scale * mean + beta\<close>.
\<close>

definition beta_or_zero :: "buffer option \<Rightarrow> nat \<Rightarrow> real" where
  "beta_or_zero beta c = (case beta of None \<Rightarrow> 0 | Some bt \<Rightarrow> bt c)"

definition group_sum :: "buffer \<Rightarrow> nat \<Rightarrow> nat \<Rightarrow> nat \<Rightarrow> nat \<Rightarrow> nat \<Rightarrow> real" where
  "group_sum X C HxW G n g =
     (\<Sum>m<HxW. \<Sum>d<C div G. X ((n * HxW + m) * C + g * (C div G) + d))"

definition group_sumsq :: "buffer \<Rightarrow> nat \<Rightarrow> nat \<Rightarrow> nat \<Rightarrow> nat \<Rightarrow> nat \<Rightarrow> real" where
  "group_sumsq X C HxW G n g =
     (\<Sum>m<HxW. \<Sum>d<C div G. X ((n * HxW + m) * C + g * (C div G) + d)
                               * X ((n * HxW + m) * C + g * (C div G) + d))"

definition mean_spec :: "buffer \<Rightarrow> nat \<Rightarrow> nat \<Rightarrow> nat \<Rightarrow> nat \<Rightarrow> nat \<Rightarrow> real" where
  "mean_spec X C HxW G n g = group_sum X C HxW G n g / real (C div G * HxW)"

definition rstd_spec :: "buffer \<Rightarrow> nat \<Rightarrow> nat \<Rightarrow> nat \<Rightarrow> real \<Rightarrow> nat \<Rightarrow> nat \<Rightarrow> real" where
  "rstd_spec X C HxW G eps n g =
     1 / sqrt (max (group_sumsq X C HxW G n g / real (C div G * HxW)
                      - mean_spec X C HxW G n g * mean_spec X C HxW G n g) 0 + eps)"

definition Y_spec ::
  "buffer \<Rightarrow> buffer option \<Rightarrow> buffer option \<Rightarrow> nat \<Rightarrow> nat \<Rightarrow> nat \<Rightarrow> real \<Rightarrow>
   nat \<Rightarrow> nat \<Rightarrow> nat \<Rightarrow> real" where
  "Y_spec X gamma beta C HxW G eps n m c =
     (let g = c div (C div G);
          scale = rstd_spec X C HxW G eps n g * gamma_or_one gamma c;
          bias = - scale * mean_spec X C HxW G n g + beta_or_zero beta c
      in X ((n * HxW + m) * C + c) * scale + bias)"

section \<open>The parallel range executor runs a loop\<close>

lemma covers_fold:
  "covers T b e cs \<Longrightarrow> fold (\<lambda>(tid, b, e). fold body [b..<e]) cs s = fold body [b..<e] s"
proof (induction cs arbitrary: b s)
  case Nil
  then show ?case by simp
next
  case (Cons c cs)
  obtain tid b' e' where c: "c = (tid, b', e')" by (cases c)
  from Cons.prems c have h: "b' = b" "b < e'" "e' \<le> e" "covers T e' e cs" by auto
  have "[b..<e] = [b..<e'] @ [e'..<e]"
    using h by (metis le_Suc_ex less_imp_le_nat upt_add_eq_append)
  then show ?case using Cons.IH[OF h(4)] c h by simp
qed

lemma parallel_for_fold:
  "valid_pool pool \<Longrightarrow>
   parallel_for pool b e g (\<lambda>tid start end. fold body [start..<end]) s = fold body [b..<e] s"
proof -
  assume "valid_pool pool"
  then have "covers (num_threads pool) b e (chunks_of pool b e g)"
    by (simp add: valid_pool_def)
  then show ?thesis
    unfolding parallel_for_def by (rule covers_fold)
qed

lemma valid_two_threads: "valid_pool two_threads"
  by (auto simp: valid_pool_def two_threads_def halves_def)

lemma round_to_Float_small:
  "round_to Float 0 = 0" "round_to Float 1 = 1" "round_to Float 2 = 2" "round_to Float 3 = 3"
  by code_simp+

lemma static_cast_Float_1: "static_cast Float 1 = 1"
  by code_simp

lemma int64_mult: "int64 (a * b) = int64 a * int64 b"
  by (simp add: int64_def)

lemma int64_eq_iff:
  assumes "a < 2 ^ 63" "b < 2 ^ 63"
  shows "int64 a = int64 b \<longleftrightarrow> a = b"
proof -
  have "a < 2 ^ 64" "b < 2 ^ 64"
    using assms by simp_all
  then have "take_bit 64 a = a" "take_bit 64 b = b"
    by (simp_all add: take_bit_nat_eq_self)
  then show ?thesis
    by (simp add: int64_def word_of_nat_eq_iff)
qed

lemma int64_product3:
  assumes "n < 2 ^ 63" "N * C * HxW < 2 ^ 63"
  shows "int64 n = int64 N * int64 C * int64 HxW \<longleftrightarrow> n = N * C * HxW"
  using int64_eq_iff[OF assms] by (simp add: int64_mult)

lemma int64_product2:
  assumes "n < 2 ^ 63" "N * G < 2 ^ 63"
  shows "int64 n = int64 N * int64 G \<longleftrightarrow> n = N * G"
  using int64_eq_iff[OF assms] by (simp add: int64_mult)

section \<open>Shape checks\<close>

text \<open>
  C1, as the code has it. The sizes and element counts are in the range of \<^verbatim>\<open>int64_t\<close> and
  the products \<open>N * C * HxW\<close> and \<open>N * G\<close> do not overflow. A call of the forward entry point
  with an \<open>X\<close> that has not \<open>N * C * HxW\<close> elements, or with a \<open>gamma\<close> or \<open>beta\<close> that is
  present and has not \<open>C\<close> elements, raises and leaves \<open>Y\<close>, \<open>mean\<close> and \<open>rstd\<close> as they were.
  A call of the backward entry point with a \<open>dY\<close> or \<open>X\<close> that has not \<open>N * C * HxW\<close> elements,
  a \<open>mean\<close> or \<open>rstd\<close> that has not \<open>N * G\<close> elements, or a present \<open>gamma\<close> that has not \<open>C\<close>
  elements, raises and leaves \<open>dX\<close>, \<open>dGamma\<close> and \<open>dBeta\<close> as they were. Nothing else is
  checked: with the element counts right, \<open>G > 0\<close> and a supported memory format, both
  entry points return, whether or not \<open>G\<close> divides \<open>C\<close>.
\<close>

theorem shape_violation_raises_before_any_write:
  "((N * C * HxW < 2 ^ 63 \<and> numel X < 2 ^ 63
     \<and> (numel X \<noteq> N * C * HxW \<or> (\<exists>t. gamma = Some t \<and> numel t \<noteq> C)
          \<or> (\<exists>t. beta = Some t \<and> numel t \<noteq> C))) \<longrightarrow>
    (\<exists>e. GroupNormKernelImpl lanes pool uninit fmt scalar_t mixed_type X gamma beta
            N C HxW G eps s = Inl (e, s)))
   \<and>
   ((N * C * HxW < 2 ^ 63 \<and> N * G < 2 ^ 63 \<and> numel dY < 2 ^ 63 \<and> numel X < 2 ^ 63
     \<and> numel mean < 2 ^ 63 \<and> numel rstd < 2 ^ 63
     \<and> (numel dY \<noteq> N * C * HxW \<or> numel X \<noteq> N * C * HxW \<or> numel mean \<noteq> N * G
          \<or> numel rstd \<noteq> N * G \<or> (\<exists>t. gamma = Some t \<and> numel t \<noteq> C))) \<longrightarrow>
    GroupNormBackwardKernelImpl lanes pool uninit scalar_t mixed_type dY X mean rstd gamma
      N C HxW G b = Inl (CheckFailed, b))
   \<and>
   ((N * C * HxW < 2 ^ 63 \<and> numel X = N * C * HxW
     \<and> (gamma = None \<or> numel (the gamma) = C) \<and> (beta = None \<or> numel (the beta) = C)
     \<and> 0 < G \<and> fmt \<noteq> Preserve) \<longrightarrow>
    (\<exists>s'. GroupNormKernelImpl lanes pool uninit fmt scalar_t mixed_type X gamma beta
            N C HxW G eps s = Inr s'))
   \<and>
   ((N * C * HxW < 2 ^ 63 \<and> N * G < 2 ^ 63 \<and> numel dY = N * C * HxW
     \<and> numel X = N * C * HxW \<and> numel mean = N * G \<and> numel rstd = N * G
     \<and> (gamma = None \<or> numel (the gamma) = C) \<and> 0 < G) \<longrightarrow>
    (\<exists>b'. GroupNormBackwardKernelImpl lanes pool uninit scalar_t mixed_type dY X mean rstd gamma
            N C HxW G b = Inr b'))"
proof (intro conjI impI)
  assume h: "N * C * HxW < 2 ^ 63 \<and> numel X < 2 ^ 63
     \<and> (numel X \<noteq> N * C * HxW \<or> (\<exists>t. gamma = Some t \<and> numel t \<noteq> C)
          \<or> (\<exists>t. beta = Some t \<and> numel t \<noteq> C))"
  then have x: "(int64 (numel X) = int64 N * int64 C * int64 HxW) = (numel X = N * C * HxW)"
    by (intro int64_product3) simp_all
  have k: "GroupNormKernelImplInternal nm rw pool X gamma beta N C HxW G e' s
                  = Inl (CheckFailed, s)"
       and c: "GroupNormKernelImplChannelsLastInternal nm pool uninit X gamma beta N C HxW G e' s
                  = Inl (CheckFailed, s)" for nm rw e'
    using h
    by (auto simp: GroupNormKernelImplInternal_def GroupNormKernelImplChannelsLastInternal_def x)
  show "\<exists>e. GroupNormKernelImpl lanes pool uninit fmt scalar_t mixed_type X gamma beta
            N C HxW G eps s = Inl (e, s)"
    by (cases fmt) (simp_all add: GroupNormKernelImpl_def k c)
next
  assume h: "N * C * HxW < 2 ^ 63 \<and> N * G < 2 ^ 63 \<and> numel dY < 2 ^ 63 \<and> numel X < 2 ^ 63
     \<and> numel mean < 2 ^ 63 \<and> numel rstd < 2 ^ 63
     \<and> (numel dY \<noteq> N * C * HxW \<or> numel X \<noteq> N * C * HxW \<or> numel mean \<noteq> N * G
          \<or> numel rstd \<noteq> N * G \<or> (\<exists>t. gamma = Some t \<and> numel t \<noteq> C))"
  have x: "(int64 (numel dY) = int64 N * int64 C * int64 HxW) = (numel dY = N * C * HxW)"
    "(int64 (numel X) = int64 N * int64 C * int64 HxW) = (numel X = N * C * HxW)"
    "(int64 (numel mean) = int64 N * int64 G) = (numel mean = N * G)"
    "(int64 (numel rstd) = int64 N * int64 G) = (numel rstd = N * G)"
    using h by (simp_all add: int64_product3 int64_product2)
  have "GroupNormBackwardKernelImplInternal nm pool uninit dY X mean rstd gamma N C HxW G b
               = Inl (CheckFailed, b)" for nm
    using h by (auto simp: GroupNormBackwardKernelImplInternal_def x)
  then show "GroupNormBackwardKernelImpl lanes pool uninit scalar_t mixed_type dY X mean rstd gamma
      N C HxW G b = Inl (CheckFailed, b)"
    by (simp add: GroupNormBackwardKernelImpl_def)
next
  assume h: "N * C * HxW < 2 ^ 63 \<and> numel X = N * C * HxW
     \<and> (gamma = None \<or> numel (the gamma) = C) \<and> (beta = None \<or> numel (the beta) = C)
     \<and> 0 < G \<and> fmt \<noteq> Preserve"
  then have k: "\<exists>s'. GroupNormKernelImplInternal nm rw pool X gamma beta N C HxW G e' s = Inr s'"
       and c: "\<exists>s'. GroupNormKernelImplChannelsLastInternal nm pool uninit X gamma beta
                       N C HxW G e' s = Inr s'" for nm rw e'
    by (auto simp: GroupNormKernelImplInternal_def GroupNormKernelImplChannelsLastInternal_def
        int64_mult Let_def)
  show "\<exists>s'. GroupNormKernelImpl lanes pool uninit fmt scalar_t mixed_type X gamma beta
            N C HxW G eps s = Inr s'"
    using h by (cases fmt) (simp_all add: GroupNormKernelImpl_def k c Let_def)
next
  assume h: "N * C * HxW < 2 ^ 63 \<and> N * G < 2 ^ 63 \<and> numel dY = N * C * HxW
     \<and> numel X = N * C * HxW \<and> numel mean = N * G \<and> numel rstd = N * G
     \<and> (gamma = None \<or> numel (the gamma) = C) \<and> 0 < G"
  then have "\<exists>b'. GroupNormBackwardKernelImplInternal nm pool uninit dY X mean rstd gamma
                  N C HxW G b = Inr b'" for nm
    by (auto simp: GroupNormBackwardKernelImplInternal_def int64_mult Let_def)
  then show "\<exists>b'. GroupNormBackwardKernelImpl lanes pool uninit scalar_t mixed_type dY X mean rstd
            gamma N C HxW G b = Inr b'"
    by (simp add: GroupNormBackwardKernelImpl_def)
qed

theorem shape_violation_raises_before_any_write_witness:
  "(1::nat) * 4 * 1 < 2 ^ 63 \<and> (1::nat) * 2 < 2 ^ 63
   \<and> numel \<lparr>numel = 5, data_ptr = (\<lambda>i. real i)\<rparr> \<noteq> 1 * 4 * 1
   \<and> (\<exists>e. GroupNormKernelImpl (\<lambda>t. 8) two_threads (\<lambda>i. 0) Contiguous Float False
            \<lparr>numel = 5, data_ptr = (\<lambda>i. real i)\<rparr> None None 1 4 1 2 1
            \<lparr>Y_data = (\<lambda>i. 7), mean_data = (\<lambda>i. 7), rstd_data = (\<lambda>i. 7)\<rparr>
          = Inl (e, \<lparr>Y_data = (\<lambda>i. 7), mean_data = (\<lambda>i. 7), rstd_data = (\<lambda>i. 7)\<rparr>))
   \<and> numel \<lparr>numel = 3, data_ptr = (\<lambda>i. 1)\<rparr> \<noteq> 1 * 2
   \<and> GroupNormBackwardKernelImpl (\<lambda>t. 8) two_threads (\<lambda>i. 0) Float False
        \<lparr>numel = 4, data_ptr = (\<lambda>i. 1)\<rparr> \<lparr>numel = 4, data_ptr = (\<lambda>i. real i)\<rparr>
        \<lparr>numel = 3, data_ptr = (\<lambda>i. 1)\<rparr> \<lparr>numel = 2, data_ptr = (\<lambda>i. 1)\<rparr> None 1 4 1 2
        \<lparr>dX_data = Some (\<lambda>i. 7), dgamma_data = None, dbeta_data = Some (\<lambda>i. 7)\<rparr>
       = Inl (CheckFailed,
              \<lparr>dX_data = Some (\<lambda>i. 7), dgamma_data = None, dbeta_data = Some (\<lambda>i. 7)\<rparr>)
   \<and> numel \<lparr>numel = 3, data_ptr = (\<lambda>i. real i)\<rparr> = 1 * 3 * 1 \<and> \<not> (2::nat) dvd 3
   \<and> (\<exists>s'. GroupNormKernelImpl (\<lambda>t. 8) two_threads (\<lambda>i. 0) ChannelsLast Float False
            \<lparr>numel = 3, data_ptr = (\<lambda>i. real i)\<rparr> None None 1 3 1 2 1
            \<lparr>Y_data = (\<lambda>i. 7), mean_data = (\<lambda>i. 7), rstd_data = (\<lambda>i. 7)\<rparr> = Inr s')
   \<and> (\<exists>b'. GroupNormBackwardKernelImpl (\<lambda>t. 8) two_threads (\<lambda>i. 0) Float False
        \<lparr>numel = 3, data_ptr = (\<lambda>i. 1)\<rparr> \<lparr>numel = 3, data_ptr = (\<lambda>i. real i)\<rparr>
        \<lparr>numel = 2, data_ptr = (\<lambda>i. 1)\<rparr> \<lparr>numel = 2, data_ptr = (\<lambda>i. 1)\<rparr> None 1 3 1 2
        \<lparr>dX_data = Some (\<lambda>i. 7), dgamma_data = Some (\<lambda>i. 7), dbeta_data = Some (\<lambda>i. 7)\<rparr>
       = Inr b')"
  using shape_violation_raises_before_any_write
    [where N = 1 and C = 4 and HxW = 1 and G = 2 and fmt = Contiguous and scalar_t = Float
       and mixed_type = False and lanes = "\<lambda>t. 8" and pool = two_threads and uninit = "\<lambda>i. 0"
       and X = "\<lparr>numel = 5, data_ptr = (\<lambda>i. real i)\<rparr>" and gamma = None and beta = None
       and eps = 1
       and s = "\<lparr>Y_data = (\<lambda>i. 7), mean_data = (\<lambda>i. 7), rstd_data = (\<lambda>i. 7)\<rparr>"]
    shape_violation_raises_before_any_write
    [where N = 1 and C = 4 and HxW = 1 and G = 2 and scalar_t = Float
       and mixed_type = False and lanes = "\<lambda>t. 8" and pool = two_threads and uninit = "\<lambda>i. 0"
       and X = "\<lparr>numel = 4, data_ptr = (\<lambda>i. real i)\<rparr>" and gamma = None
       and dY = "\<lparr>numel = 4, data_ptr = (\<lambda>i. 1)\<rparr>"
       and mean = "\<lparr>numel = 3, data_ptr = (\<lambda>i. 1)\<rparr>"
       and rstd = "\<lparr>numel = 2, data_ptr = (\<lambda>i. 1)\<rparr>"
       and b = "\<lparr>dX_data = Some (\<lambda>i. 7), dgamma_data = None, dbeta_data = Some (\<lambda>i. 7)\<rparr>"]
    shape_violation_raises_before_any_write
    [where N = 1 and C = 3 and HxW = 1 and G = 2 and fmt = ChannelsLast and scalar_t = Float
       and mixed_type = False and lanes = "\<lambda>t. 8" and pool = two_threads and uninit = "\<lambda>i. 0"
       and X = "\<lparr>numel = 3, data_ptr = (\<lambda>i. real i)\<rparr>" and gamma = None and beta = None
       and eps = 1
       and s = "\<lparr>Y_data = (\<lambda>i. 7), mean_data = (\<lambda>i. 7), rstd_data = (\<lambda>i. 7)\<rparr>"
       and dY = "\<lparr>numel = 3, data_ptr = (\<lambda>i. 1)\<rparr>"
       and mean = "\<lparr>numel = 2, data_ptr = (\<lambda>i. 1)\<rparr>"
       and rstd = "\<lparr>numel = 2, data_ptr = (\<lambda>i. 1)\<rparr>"
       and b = "\<lparr>dX_data = Some (\<lambda>i. 7), dgamma_data = Some (\<lambda>i. 7),
                 dbeta_data = Some (\<lambda>i. 7)\<rparr>"]
  by simp

text \<open>
  C1, as the spec states it, fails: with \<open>C = 3\<close> and \<open>G = 2\<close> the forward entry point
  returns, having written two elements of \<open>Y\<close>, \<open>mean\<close> and \<open>rstd\<close>.
\<close>

theorem indivisible_channels_not_rejected:
  "\<not> (2::nat) dvd 3
   \<and> GroupNormKernelImpl (\<lambda>t. 8) two_threads (\<lambda>i. 0) Contiguous Float False
        \<lparr>numel = 3, data_ptr = (\<lambda>i. real i)\<rparr> None None 1 3 1 2 1
        \<lparr>Y_data = (\<lambda>i. 7), mean_data = (\<lambda>i. 7), rstd_data = (\<lambda>i. 7)\<rparr>
       = Inr \<lparr>Y_data = (\<lambda>i. 7)(0 := 0, Suc 0 := 0),
               mean_data = (\<lambda>i. 7)(0 := 0, Suc 0 := 1),
               rstd_data = (\<lambda>i. 7)(0 := 1, Suc 0 := 1)\<rparr>"
  by (simp add: GroupNormKernelImpl_def GroupNormKernelImplInternal_def
      parallel_for_fold[OF valid_two_threads] packed_unit_def RowwiseMoments_def instance_of_def
      opmath_type_def static_cast_Float_1 round_to_Float_small fadd_def fsub_def fmul_def fdiv_def
      fsqrt_def Let_def upt_conv_Cons int64_def)

lemma exact_sel [simp]:
  "to_T (exact K bf fp) = (\<lambda>x. x)" "to_ACC (exact K bf fp) = (\<lambda>x. x)"
  "to_PT (exact K bf fp) = (\<lambda>x. x)"
  "vec_size_T (exact K bf fp) = (if bf then 2 * K else K)" "vec_size_ACC (exact K bf fp) = K"
  "vec_size_PT (exact K bf fp) = (if bf \<and> \<not> fp then 2 * K else K)"
  "bfloat16_T (exact K bf fp) = bf" "float_PT (exact K bf fp) = fp"
  by (simp_all add: exact_def)

lemma exact_is_exact: "exact_arithmetic (exact K bf fp)" "0 < K \<Longrightarrow> lanes_ok (exact K bf fp)"
  by (simp_all add: exact_arithmetic_def lanes_ok_def)

lemma lanes_ok_pos:
  "lanes_ok nm \<Longrightarrow> 0 < vec_size_T nm \<and> 0 < vec_size_ACC nm \<and> 0 < vec_size_PT nm"
  by (auto simp: lanes_ok_def)

lemma arith_exact [simp]:
  "fadd (\<lambda>x. x) a b = a + b" "fsub (\<lambda>x. x) a b = a - b" "fmul (\<lambda>x. x) a b = a * b"
  "fdiv (\<lambda>x. x) a b = a / b" "fsqrt (\<lambda>x. x) a = sqrt a"
  by (simp_all add: fadd_def fsub_def fmul_def fdiv_def fsqrt_def)

lemma fold_pair:
  "fold (\<lambda>x p. (f x (fst p), g x (snd p))) xs (a, b) = (fold f xs a, fold g xs b)"
  by (induction xs arbitrary: a b) simp_all

lemma fold_upt_Suc: "fold f [0..<Suc n] s = f n (fold f [0..<n] s)"
  by simp

lemma length_vec [simp]:
  "length (vec_splat K x) = K" "length (loadu K p off) = K" "length (loadu_count K p off n) = K"
  "length (vadd r a b) = min (length a) (length b)"
  "length (vmul r a b) = min (length a) (length b)"
  by (simp_all add: vec_splat_def loadu_def loadu_count_def vadd_def vmul_def)

lemma sum_list_vadd:
  "length a = length b \<Longrightarrow> sum_list (vadd (\<lambda>x. x) a b) = sum_list a + sum_list b"
proof (induction a arbitrary: b)
  case Nil
  then show ?case by (simp add: vadd_def)
next
  case (Cons x a)
  then obtain y b' where "b = y # b'" by (cases b) auto
  with Cons show ?case by (simp add: vadd_def)
qed

lemma sum_list_upt: "sum_list (map f [0..<n]) = (\<Sum>l<n. f l)"
  by (induction n) simp_all

lemma sum_list_loadu: "sum_list (loadu K p off) = (\<Sum>l<K. p (off + l))"
  by (simp add: loadu_def sum_list_upt)

lemma sum_list_loadu_count:
  "n \<le> K \<Longrightarrow> sum_list (loadu_count K p off n) = (\<Sum>l<n. p (off + l))"
proof -
  assume "n \<le> K"
  have "sum_list (loadu_count K p off n) = (\<Sum>l<K. if l < n then p (off + l) else 0)"
    by (simp add: loadu_count_def sum_list_upt)
  also have "\<dots> = (\<Sum>l\<in>{..<K} \<inter> {l. l < n}. p (off + l))"
    by (simp add: sum.inter_restrict)
  also have "{..<K} \<inter> {l. l < n} = {..<n}"
    using \<open>n \<le> K\<close> by auto
  finally show ?thesis .
qed

lemma vmul_loadu:
  "vmul (\<lambda>x. x) (loadu K p a) (loadu K q b) = loadu K (\<lambda>l. p (a + l) * q (b + l)) 0"
  by (simp add: vmul_def loadu_def map2_map_map)

lemma vmul_loadu_count:
  "vmul (\<lambda>x. x) (loadu_count K p a n) (loadu_count K q b n) =
   loadu_count K (\<lambda>l. p (a + l) * q (b + l)) 0 n"
  by (simp add: vmul_def loadu_count_def map2_map_map)

lemma sum_list_vec_splat_0 [simp]: "sum_list (vec_splat K 0) = 0"
  by (induction K) (simp_all add: vec_splat_def)

lemma foldl_add_sum_list: "foldl (+) (a::real) xs = a + sum_list xs"
  by (induction xs arbitrary: a) simp_all

lemma foldl_fadd_exact: "foldl (fadd (\<lambda>x. x)) a xs = a + sum_list xs"
proof -
  have "fadd (\<lambda>x. x) = (+)" by (simp add: fun_eq_iff)
  then show ?thesis by (simp add: foldl_add_sum_list)
qed

lemma vec_reduce_all_exact: "vec_reduce_all (\<lambda>x. x) v = sum_list v"
  by (cases v) (simp_all add: vec_reduce_all_def foldl_fadd_exact)

lemma sum_block:
  "(\<Sum>k<K + m * K. (h (k::nat)::real)) = (\<Sum>k<m * K. h k) + (\<Sum>l<K. h (m * K + l))"
proof -
  have "(\<Sum>k<K + m * K. h k) = (\<Sum>k = 0..<m * K. h k) + (\<Sum>k = m * K..<m * K + K. h k)"
    by (simp add: sum.atLeastLessThan_concat lessThan_atLeast0 add.commute)
  also have "(\<Sum>k = m * K..<m * K + K. h k) = (\<Sum>l<K. h (m * K + l))"
    using sum.shift_bounds_nat_ivl[of h 0 "m * K" K] by (simp add: lessThan_atLeast0 add.commute)
  finally show ?thesis by (simp add: lessThan_atLeast0)
qed

lemma blocked_accumulate:
  "length acc = K \<Longrightarrow>
   (let r = fold (\<lambda>j acc. vadd (\<lambda>x. x) acc (loadu K p (off + j))) (map (\<lambda>b. b * K) [0..<m]) acc
    in length r = K \<and> sum_list r = sum_list acc + (\<Sum>k<m * K. p (off + k)))"
proof (induction m)
  case 0
  then show ?case by simp
next
  case (Suc m)
  then show ?case
    by (simp add: Let_def sum_list_vadd sum_list_loadu sum_block[where h = "\<lambda>k. p (off + k)"] add.assoc)
qed

lemma fold_add_pair:
  "fold (\<lambda>j (a, b). (a + f j, b + g j)) xs (a0, b0) =
     (a0 + sum_list (map f xs), b0 + (sum_list (map g xs) :: real))"
  for f :: "nat \<Rightarrow> real"
  by (induction xs arbitrary: a0 b0) (simp_all add: add.assoc)

lemma sum_list_upt_ivl: "sum_list (map f [m..<n]) = (\<Sum>k = m..<n. (f k::real))"
  by (simp add: interv_sum_list_conv_sum_set_nat)

lemma sum_split_at:
  "m \<le> n \<Longrightarrow> (\<Sum>k<m. (h (k::nat)::real)) + (\<Sum>k = m..<n. h k) = (\<Sum>k<n. h k)"
  by (simp add: lessThan_atLeast0 sum.atLeastLessThan_concat)

lemma gradient_blocks:
  "length a = K \<Longrightarrow> length b = K \<Longrightarrow>
   fold (\<lambda>j (ds_vec, db_vec).
           let dy_vec = loadu K dY (p + j); x_vec = loadu K X (q + j)
           in (vadd (\<lambda>x. x) ds_vec (vmul (\<lambda>x. x) dy_vec x_vec), vadd (\<lambda>x. x) db_vec dy_vec))
     (map (\<lambda>b. b * K) [0..<m]) (a, b) = (a', b') \<Longrightarrow>
   length a' = K \<and> length b' = K
   \<and> sum_list a' = sum_list a + (\<Sum>k<m * K. dY (p + k) * X (q + k))
   \<and> sum_list b' = sum_list b + (\<Sum>k<m * K. dY (p + k))"
proof (induction m arbitrary: a' b')
  case 0
  then show ?case by simp
next
  case (Suc m)
  define F where "F = (\<lambda>j (ds_vec, db_vec).
           let dy_vec = loadu K dY (p + j); x_vec = loadu K X (q + j)
           in (vadd (\<lambda>x. x) ds_vec (vmul (\<lambda>x. x) dy_vec x_vec), vadd (\<lambda>x. x) db_vec dy_vec))"
  obtain a1 b1 where mid: "fold F (map (\<lambda>b. b * K) [0..<m]) (a, b) = (a1, b1)"
    by (cases "fold F (map (\<lambda>b. b * K) [0..<m]) (a, b)")
  have ih: "length a1 = K \<and> length b1 = K
     \<and> sum_list a1 = sum_list a + (\<Sum>k<m * K. dY (p + k) * X (q + k))
     \<and> sum_list b1 = sum_list b + (\<Sum>k<m * K. dY (p + k))"
    using Suc.IH[OF Suc.prems(1,2)] mid unfolding F_def by blast
  have "F (m * K) (a1, b1) = (a', b')"
    using Suc.prems(3) mid unfolding F_def[symmetric] by simp
  then have a': "a' = vadd (\<lambda>x. x) a1 (vmul (\<lambda>x. x) (loadu K dY (p + m * K)) (loadu K X (q + m * K)))"
    and b': "b' = vadd (\<lambda>x. x) b1 (loadu K dY (p + m * K))"
    by (simp_all add: F_def Let_def)
  have sa: "sum_list a' = sum_list a1 + (\<Sum>l<K. dY (p + (m * K + l)) * X (q + (m * K + l)))"
    using ih by (simp add: a' vmul_loadu sum_list_vadd sum_list_loadu add.assoc)
  have sb: "sum_list b' = sum_list b1 + (\<Sum>l<K. dY (p + (m * K + l)))"
    using ih by (simp add: b' sum_list_vadd sum_list_loadu add.assoc)
  have la: "length a' = K" "length b' = K"
    using ih by (simp_all add: a' b')
  show ?case
    using ih la
    by (simp add: sa sb sum_block[where h = "\<lambda>k. dY (p + k) * X (q + k)"]
        sum_block[where h = "\<lambda>k. dY (p + k)"])
qed

lemma internal_gradients_row_exact:
  assumes "to_PT nm = (\<lambda>x. x)" "0 < vec_size_T nm"
  shows "internal_gradients_row nm HxW dY X i s =
     s\<lparr>ds_data := (ds_data s)(i := (\<Sum>k<HxW. dY (i * HxW + k) * X (i * HxW + k))),
       db_data := (db_data s)(i := (\<Sum>k<HxW. dY (i * HxW + k)))\<rparr>"
proof -
  define K where "K = vec_size_T nm"
  have K: "0 < K" using assms(2) by (simp add: K_def)
  define F where "F = (\<lambda>j (ds_vec, db_vec).
             let dy_vec = loadu K dY (i * HxW + j); x_vec = loadu K X (i * HxW + j)
             in (vadd (\<lambda>x. x) ds_vec (vmul (\<lambda>x. x) dy_vec x_vec), vadd (\<lambda>x. x) db_vec dy_vec))"
  obtain a' b' where blocks:
    "fold F (map (\<lambda>b. b * K) [0..<HxW div K]) (vec_splat K 0, vec_splat K 0) = (a', b')"
    by (cases "fold F (map (\<lambda>b. b * K) [0..<HxW div K]) (vec_splat K 0, vec_splat K 0)")
  have sums: "sum_list a' = (\<Sum>k<HxW div K * K. dY (i * HxW + k) * X (i * HxW + k))"
     "sum_list b' = (\<Sum>k<HxW div K * K. dY (i * HxW + k))"
    using gradient_blocks[OF _ _ blocks[unfolded F_def]] by simp_all
  have le: "HxW div K * K \<le> HxW" by simp
  have "internal_gradients_row nm HxW dY X i s =
     (let (ds_vec, db_vec) = fold F (map (\<lambda>b. b * K) [0..<HxW div K * K div K])
                               (vec_splat K 0, vec_splat K 0);
          ds_val = foldl (fadd (\<lambda>x. x)) 0 ds_vec;
          db_val = foldl (fadd (\<lambda>x. x)) 0 db_vec;
          (ds_val, db_val) =
            fold (\<lambda>j (ds_val, db_val).
                (fadd (\<lambda>x. x) ds_val (fmul (\<lambda>x. x) (dY (i * HxW + j)) (X (i * HxW + j))),
                 fadd (\<lambda>x. x) db_val (dY (i * HxW + j))))
              [HxW div K * K..<HxW] (ds_val, db_val)
      in s\<lparr>ds_data := (ds_data s)(i := ds_val), db_data := (db_data s)(i := db_val)\<rparr>)"
    unfolding internal_gradients_row_def F_def K_def assms(1) by (simp add: Let_def)
  also have "\<dots> = s\<lparr>ds_data := (ds_data s)(i := (\<Sum>k<HxW. dY (i * HxW + k) * X (i * HxW + k))),
       db_data := (db_data s)(i := (\<Sum>k<HxW. dY (i * HxW + k)))\<rparr>"
    using K
    by (simp add: blocks foldl_fadd_exact sums fold_add_pair sum_list_upt_ivl sum_split_at[OF le])
  finally show ?thesis .
qed

lemma fold_write_range:
  "fold (\<lambda>l f. f(a + l := v l)) [0..<n] f =
     (\<lambda>q. if a \<le> q \<and> q < a + n then v (q - a) else f q)"
  for f :: "nat \<Rightarrow> 'a"
  by (induction n) (auto simp: fun_eq_iff)

lemma fold_write_rows:
  "fold (\<lambda>j f. fold (\<lambda>k f. f((b + j) * w + k := v j k)) [0..<w] f) [0..<m] f =
     (\<lambda>q. if b * w \<le> q \<and> q < (b + m) * w then v (q div w - b) (q mod w) else f q)"
  for f :: "nat \<Rightarrow> 'a"
proof (induction m)
  case 0
  then show ?case by (auto simp: fun_eq_iff)
next
  case (Suc m)
  have row: "(b + m) * w \<le> q \<Longrightarrow> q < (b + m) * w + w \<Longrightarrow>
             q div w = b + m \<and> q mod w = q - (b + m) * w" for q
  proof -
    assume h: "(b + m) * w \<le> q" "q < (b + m) * w + w"
    then obtain k where k: "q = (b + m) * w + k" "k < w"
      by (metis add_less_cancel_left le_Suc_ex)
    then show ?thesis by simp
  qed
  have e: "(b + Suc m) * w = (b + m) * w + w" by (simp add: algebra_simps)
  show ?case
  proof (rule ext)
    fix q
    have "fold (\<lambda>j f. fold (\<lambda>k f. f((b + j) * w + k := v j k)) [0..<w] f) [0..<Suc m] f q =
          (if (b + m) * w \<le> q \<and> q < (b + m) * w + w then v m (q - (b + m) * w)
           else if b * w \<le> q \<and> q < (b + m) * w then v (q div w - b) (q mod w) else f q)"
      apply (subst fold_upt_Suc)
      apply (subst Suc.IH)
      apply (simp only: fold_write_range)
      done
    also have "\<dots> = (if b * w \<le> q \<and> q < (b + Suc m) * w then v (q div w - b) (q mod w) else f q)"
      using row[of q] by (auto simp: e add_mult_distrib)
    finally show "fold (\<lambda>j f. fold (\<lambda>k f. f((b + j) * w + k := v j k)) [0..<w] f) [0..<Suc m] f q =
          (if b * w \<le> q \<and> q < (b + Suc m) * w then v (q div w - b) (q mod w) else f q)" .
  qed
qed

lemma fold_pointwise:
  "fold (\<lambda>i f. (\<lambda>q. if P q then h i (f q) q else f q)) xs f =
     (\<lambda>q. if P q then fold (\<lambda>i acc. h i acc q) xs (f q) else f q)"
  for f :: "nat \<Rightarrow> 'a"
  by (induction xs arbitrary: f) (auto simp: fun_eq_iff)

lemma fold_units:
  "fold (\<lambda>i f. (\<lambda>q. if i * w \<le> q \<and> q < (i + 1) * w then V i q else f q)) [0..<n] f =
     (\<lambda>q. if q < n * w then V (q div w) q else f q)"
  for f :: "nat \<Rightarrow> 'a"
proof (induction n)
  case 0
  then show ?case by simp
next
  case (Suc n)
  have row: "n * w \<le> q \<Longrightarrow> q < n * w + w \<Longrightarrow> q div w = n" for q
  proof -
    assume h: "n * w \<le> q" "q < n * w + w"
    then obtain k where k: "q = n * w + k" "k < w"
      by (metis add_less_cancel_left le_Suc_ex)
    then show ?thesis by simp
  qed
  show ?case
  proof (rule ext)
    fix q
    have "fold (\<lambda>i f. (\<lambda>q. if i * w \<le> q \<and> q < (i + 1) * w then V i q else f q)) [0..<Suc n] f q =
          (if n * w \<le> q \<and> q < (n + 1) * w then V n q
           else if q < n * w then V (q div w) q else f q)"
      apply (subst fold_upt_Suc)
      apply (subst Suc.IH)
      apply (rule refl)
      done
    also have "\<dots> = (if q < Suc n * w then V (q div w) q else f q)"
      using row[of q] by auto
    finally show "fold (\<lambda>i f. (\<lambda>q. if i * w \<le> q \<and> q < (i + 1) * w then V i q else f q))
                    [0..<Suc n] f q = (if q < Suc n * w then V (q div w) q else f q)" .
  qed
qed

lemma covers_fold_region:
  assumes "covers T b e cs"
    and "\<And>tid b' e' f. b' < e' \<Longrightarrow> e' \<le> e \<Longrightarrow>
           chunk tid b' e' f = (\<lambda>q. if P q \<and> b' \<le> \<phi> q \<and> \<phi> q < e' then V q else f q)"
  shows "fold (\<lambda>(tid, b, e). chunk tid b e) cs f =
           (\<lambda>q. if P q \<and> b \<le> \<phi> q \<and> \<phi> q < e then V q else f q)"
  using assms(1)
proof (induction cs arbitrary: b f)
  case Nil
  then show ?case by (auto simp: fun_eq_iff)
next
  case (Cons c cs)
  obtain tid b' e' where c: "c = (tid, b', e')" by (cases c)
  from Cons.prems c have h: "b' = b" "b < e'" "e' \<le> e" "covers T e' e cs" by auto
  show ?case
    using h by (auto simp: c Cons.IH[OF h(4)] assms(2) fun_eq_iff)
qed

lemma input_backward_unit_eq:
  "input_backward_unit nm C HxW G dY X mean rstd gamma ds db i dX =
     (let D = C div G;
          r = to_PT nm;
          s = fdiv r 1 (r (real (D * HxW)));
          g = i mod G;
          ds_val = fst (input_backward_sums nm D g gamma ds db i);
          db_val = snd (input_backward_sums nm D g gamma ds db i);
          c2 = fmul r (fmul r (fmul r (fmul r (fsub r (fmul r db_val (mean i)) ds_val) (rstd i))
                 (rstd i)) (rstd i)) s;
          c3 = fsub r (fmul r (- c2) (mean i)) (fmul r (fmul r db_val (rstd i)) s)
      in (\<lambda>q. if i * (D * HxW) \<le> q \<and> q < (i + 1) * (D * HxW)
              then to_T nm (fadd r (fadd r
                     (fmul r (fmul r (rstd i)
                        (case gamma of None \<Rightarrow> 1 | Some gm \<Rightarrow> gm (g * D + (q div HxW - i * D))))
                        (dY q))
                     (fmul r c2 (X q))) c3)
              else dX q))"
proof -
  have e: "i * (C div G) * HxW = i * (C div G * HxW)"
    "(i * (C div G) + C div G) * HxW = (i + 1) * (C div G * HxW)"
    by (simp_all add: algebra_simps)
  have idx: "i * (C div G * HxW) \<le> q \<Longrightarrow> q < (i + 1) * (C div G * HxW) \<Longrightarrow>
             (i * (C div G) + (q div HxW - i * (C div G))) * HxW + q mod HxW = q" for q
  proof -
    assume h: "i * (C div G * HxW) \<le> q" "q < (i + 1) * (C div G * HxW)"
    have pos: "0 < HxW" using h(2) by (cases "HxW = 0") simp_all
    have "i * (C div G) * HxW \<le> q" using h by (simp add: algebra_simps)
    then have "i * (C div G) \<le> q div HxW"
      using pos by (simp add: less_eq_div_iff_mult_less_eq)
    then show ?thesis by simp
  qed
  show ?thesis
    unfolding input_backward_unit_def Let_def split_def fold_write_rows e
    by (rule ext) (simp add: idx)
qed

lemma input_backward_unit_shape:
  "input_backward_unit nm C HxW G dY X mean rstd gamma ds db =
     (\<lambda>i dX q. if i * (C div G * HxW) \<le> q \<and> q < (i + 1) * (C div G * HxW)
          then input_backward_unit nm C HxW G dY X mean rstd gamma ds db i (\<lambda>_. 0) q else dX q)"
  by (intro ext) (simp add: input_backward_unit_eq Let_def)

lemma GroupNormInputBackward_shape:
  assumes "valid_pool pool"
  shows "GroupNormInputBackward nm pool N C HxW G dY X mean rstd gamma ds db dX =
     (\<lambda>q. if q < N * G * (C div G * HxW)
          then input_backward_unit nm C HxW G dY X mean rstd gamma ds db
                 (q div (C div G * HxW)) (\<lambda>_. 0) q
          else dX q)"
  unfolding GroupNormInputBackward_def parallel_for_fold[OF assms]
  by (subst input_backward_unit_shape) (rule fold_units)

lemma fold_update_range:
  "fold (\<lambda>j f. f(off + j := h j (f (off + j)))) [a..<b] f =
     (\<lambda>q. if off + a \<le> q \<and> q < off + b then h (q - off) (f q) else f q)"
  for f :: "nat \<Rightarrow> 'a"
proof (induction b)
  case 0
  then show ?case by (auto simp: fun_eq_iff)
next
  case (Suc b)
  define F where "F = (\<lambda>j (f :: nat \<Rightarrow> 'a). f(off + j := h j (f (off + j))))"
  have ih: "fold F [a..<b] f =
     (\<lambda>q. if off + a \<le> q \<and> q < off + b then h (q - off) (f q) else f q)"
    unfolding F_def by (rule Suc.IH)
  show ?case
  proof (cases "a \<le> b")
    case True
    then have "fold F [a..<Suc b] f = F b (fold F [a..<b] f)" by simp
    also have "\<dots> = (\<lambda>q. if off + a \<le> q \<and> q < off + Suc b then h (q - off) (f q) else f q)"
      using True unfolding ih by (auto simp: F_def fun_eq_iff)
    finally show ?thesis unfolding F_def .
  next
    case False
    then show ?thesis by (auto simp: fun_eq_iff)
  qed
qed

lemma fold_update_range0:
  "fold (\<lambda>j f. f(j := h j (f j))) [a..<b] f =
     (\<lambda>q. if a \<le> q \<and> q < b then h q (f q) else f q)"
  for f :: "nat \<Rightarrow> 'a"
  using fold_update_range[of 0 h a b f] by (simp add: fun_eq_iff)

lemma BetaBackward_chunk:
  assumes "start < end"
  shows "(let zeroed = fold (\<lambda>l db'. db'(start + l := 0)) [0..<end - start] dbeta
          in fold (\<lambda>i dbt.
                 let db_ptr = i * C
                 in fold (\<lambda>j dbt. dbt(j := fadd r (dbt j) (db (db_ptr + j)))) [start..<end] dbt)
               [0..<N] zeroed) =
         (\<lambda>q. if True \<and> start \<le> q \<and> q < end
              then fold (\<lambda>i acc. fadd r acc (db (i * C + q))) [0..<N] 0 else dbeta q)"
proof -
  have z: "fold (\<lambda>l db'. db'(start + l := (0::real))) [0..<end - start] dbeta =
           (\<lambda>q. if start \<le> q \<and> q < end then 0 else dbeta q)"
    using assms by (auto simp: fold_write_range fun_eq_iff)
  show ?thesis
    unfolding Let_def z fold_update_range0[where h = "\<lambda>j v. fadd r v (db (i * C + j))" for i]
      fold_pointwise[where P = "\<lambda>q. start \<le> q \<and> q < end" and h = "\<lambda>i acc q. fadd r acc (db (i * C + q))"]
    by (simp add: fun_eq_iff)
qed

lemma BetaBackward_shape:
  assumes "valid_pool pool"
  shows "BetaBackward nm pool N C db dbeta =
     (\<lambda>q. if q < C then fold (\<lambda>i acc. fadd (to_PT nm) acc (db (i * C + q))) [0..<N] 0
          else dbeta q)"
proof -
  have c: "covers (num_threads pool) 0 C (chunks_of pool 0 C (vec_size_PT nm))"
    using assms by (simp add: valid_pool_def)
  show ?thesis
    unfolding BetaBackward_def parallel_for_def Let_def
    using covers_fold_region[OF c, where \<phi> = "\<lambda>q. q" and P = "\<lambda>q. True"
        and V = "\<lambda>q. fold (\<lambda>i acc. fadd (to_PT nm) acc (db (i * C + q))) [0..<N] 0"
        and chunk = "\<lambda>tid start end dbeta. fold (\<lambda>i. fold (\<lambda>j dbt. dbt(j := fadd (to_PT nm) (dbt j) (db (i * C + j)))) [start..<end])
               [0..<N] (fold (\<lambda>l db'. db'(start + l := 0)) [0..<end - start] dbeta)" and f = dbeta]
      BetaBackward_chunk[unfolded Let_def, where r = "to_PT nm" and C = C and db = db and N = N]
    by simp
qed

lemma row_index:
  fixes D :: nat
  assumes "a < b" "b \<le> D"
  shows "(i * D + a \<le> q \<and> q < i * D + b) = (q div D = i \<and> a \<le> q mod D \<and> q mod D < b)"
proof -
  have D: "0 < D" using assms by simp
  show ?thesis
  proof
    assume h: "i * D + a \<le> q \<and> q < i * D + b"
    then obtain k where k: "q = i * D + k" "a \<le> k" "k < b"
      by (metis add_le_cancel_left add_less_cancel_left le_Suc_ex le_add1 le_trans add.assoc)
    then have "k < D" using assms by simp
    then show "q div D = i \<and> a \<le> q mod D \<and> q mod D < b"
      using k by simp
  next
    assume h: "q div D = i \<and> a \<le> q mod D \<and> q mod D < b"
    have "q = q div D * D + q mod D" by simp
    then show "i * D + a \<le> q \<and> q < i * D + b"
      using h by (metis add_le_cancel_left add_less_cancel_left)
  qed
qed

lemma zero_rows:
  assumes "a < b" "b \<le> D"
  shows "fold (\<lambda>i dg. fold (\<lambda>l dg. dg(i * D + a + l := (0::real))) [0..<b - a] dg) [0..<G] f =
         (\<lambda>q. if q div D < G \<and> a \<le> q mod D \<and> q mod D < b then 0 else f q)"
proof -
  have inner: "(\<lambda>i dg. fold (\<lambda>l dg. dg(i * D + a + l := (0::real))) [0..<b - a] dg) =
        (\<lambda>i dg q. if q div D = i \<and> a \<le> q mod D \<and> q mod D < b then 0 else dg q)"
  proof (intro ext)
    fix i dg q
    have "fold (\<lambda>l dg. dg(i * D + a + l := (0::real))) [0..<b - a] dg q =
          (if i * D + a \<le> q \<and> q < i * D + a + (b - a) then 0 else dg q)"
      unfolding fold_write_range by (rule refl)
    also have "\<dots> = (if q div D = i \<and> a \<le> q mod D \<and> q mod D < b then 0 else dg q)"
      using assms(1) row_index[OF assms, of i q] by simp
    finally show "fold (\<lambda>l dg. dg(i * D + a + l := (0::real))) [0..<b - a] dg q =
          (if q div D = i \<and> a \<le> q mod D \<and> q mod D < b then 0 else dg q)" .
  qed
  show ?thesis
    unfolding inner
  proof (induction G)
    case 0
    then show ?case by simp
  next
    case (Suc G)
    show ?case
      apply (subst fold_upt_Suc)
      apply (subst Suc.IH)
      apply (auto simp: fun_eq_iff less_Suc_eq)
      done
  qed
qed

lemma GammaBackward_chunk:
  assumes "start < end" "end \<le> D" "0 < G"
  shows "(let zeroed = fold (\<lambda>i dg. fold (\<lambda>l dg. dg(i * D + start + l := 0))
                                          [0..<end - start] dg) [0..<G] dgamma
          in fold (\<lambda>i dg.
                 let ds_ptr = i * D;
                     db_ptr = i * D;
                     g = i mod G
                 in fold (\<lambda>j dg.
                        let c = g * D + j
                        in dg(c := fadd r (dg c)
                                     (fmul r (fsub r (ds (ds_ptr + j))
                                                (fmul r (db (db_ptr + j)) (mean i))) (rstd i))))
                      [start..<end] dg)
               [0..<n] zeroed) =
         (\<lambda>q. if q div D < G \<and> start \<le> q mod D \<and> q mod D < end
              then fold (\<lambda>i acc. if q div D = i mod G
                          then fadd r acc (fmul r (fsub r (ds (i * D + q mod D))
                                 (fmul r (db (i * D + q mod D)) (mean i))) (rstd i))
                          else acc) [0..<n] 0
              else dgamma q)"
proof -
  have step: "(\<lambda>i dg. fold (\<lambda>j dg. dg(i mod G * D + j := fadd r (dg (i mod G * D + j))
                 (fmul r (fsub r (ds (i * D + j)) (fmul r (db (i * D + j)) (mean i))) (rstd i))))
               [start..<end] dg) =
     (\<lambda>i dg q. if q div D < G \<and> start \<le> q mod D \<and> q mod D < end
        then (if q div D = i mod G
              then fadd r (dg q) (fmul r (fsub r (ds (i * D + q mod D))
                                 (fmul r (db (i * D + q mod D)) (mean i))) (rstd i))
              else dg q)
        else dg q)"
  proof (intro ext)
    fix i dg q
    have m: "i mod G < G" using assms(3) by simp
    have r: "(i mod G * D + start \<le> q \<and> q < i mod G * D + end) =
             (q div D = i mod G \<and> start \<le> q mod D \<and> q mod D < end)"
      by (rule row_index[OF assms(1,2)])
    have sub: "q div D = i mod G \<Longrightarrow> q - i mod G * D = q mod D"
      by (metis add_diff_cancel_left' div_mult_mod_eq)
    show "fold (\<lambda>j dg. dg(i mod G * D + j := fadd r (dg (i mod G * D + j))
                 (fmul r (fsub r (ds (i * D + j)) (fmul r (db (i * D + j)) (mean i))) (rstd i))))
               [start..<end] dg q =
          (if q div D < G \<and> start \<le> q mod D \<and> q mod D < end
           then (if q div D = i mod G
              then fadd r (dg q) (fmul r (fsub r (ds (i * D + q mod D))
                                 (fmul r (db (i * D + q mod D)) (mean i))) (rstd i))
              else dg q)
           else dg q)"
      unfolding fold_update_range[where off = "i mod G * D"
          and h = "\<lambda>j v. fadd r v (fmul r (fsub r (ds (i * D + j)) (fmul r (db (i * D + j)) (mean i))) (rstd i))"]
      using m r sub by auto
  qed
  show ?thesis
    unfolding Let_def zero_rows[OF assms(1,2)] step
      fold_pointwise[where P = "\<lambda>q. q div D < G \<and> start \<le> q mod D \<and> q mod D < end"
        and h = "\<lambda>i acc q. if q div D = i mod G
              then fadd r acc (fmul r (fsub r (ds (i * D + q mod D))
                                 (fmul r (db (i * D + q mod D)) (mean i))) (rstd i))
              else acc"]
    by (simp add: fun_eq_iff)
qed

lemma GammaBackward_shape:
  assumes "valid_pool pool" "0 < G"
  shows "GammaBackward nm pool N C G mean rstd ds db dgamma =
     (\<lambda>q. if q < G * (C div G)
          then fold (\<lambda>i acc. if q div (C div G) = i mod G
                   then fadd (to_PT nm) acc
                          (fmul (to_PT nm)
                             (fsub (to_PT nm) (ds (i * (C div G) + q mod (C div G)))
                                (fmul (to_PT nm) (db (i * (C div G) + q mod (C div G))) (mean i)))
                             (rstd i))
                   else acc) [0..<N * G] 0
          else dgamma q)"
proof -
  define D where "D = C div G"
  define V where "V = (\<lambda>q. fold (\<lambda>i acc. if q div D = i mod G
                   then fadd (to_PT nm) acc
                          (fmul (to_PT nm)
                             (fsub (to_PT nm) (ds (i * D + q mod D))
                                (fmul (to_PT nm) (db (i * D + q mod D)) (mean i)))
                             (rstd i))
                   else acc) [0..<N * G] (0::real))"
  define chunk where "chunk = (\<lambda>(tid::nat) start end dgamma.
      let zeroed = fold (\<lambda>i dg. fold (\<lambda>l dg. dg(i * D + start + l := 0))
                                          [0..<end - start] dg) [0..<G] dgamma
      in fold (\<lambda>i dg.
                 let ds_ptr = i * D;
                     db_ptr = i * D;
                     g = i mod G
                 in fold (\<lambda>j dg.
                        let c = g * D + j
                        in dg(c := fadd (to_PT nm) (dg c)
                                     (fmul (to_PT nm) (fsub (to_PT nm) (ds (ds_ptr + j))
                                                (fmul (to_PT nm) (db (db_ptr + j)) (mean i))) (rstd i))))
                      [start..<end] dg)
               [0..<N * G] zeroed)"
  have c: "covers (num_threads pool) 0 D (chunks_of pool 0 D (vec_size_PT nm))"
    using assms by (simp add: valid_pool_def)
  have ch: "\<And>tid b' e' f. b' < e' \<Longrightarrow> e' \<le> D \<Longrightarrow>
     chunk tid b' e' f = (\<lambda>q. if q div D < G \<and> b' \<le> q mod D \<and> q mod D < e' then V q else f q)"
    unfolding chunk_def V_def using GammaBackward_chunk[OF _ _ assms(2)] by blast
  have "GammaBackward nm pool N C G mean rstd ds db dgamma =
        fold (\<lambda>(tid, b, e). chunk tid b e) (chunks_of pool 0 D (vec_size_PT nm)) dgamma"
    unfolding GammaBackward_def parallel_for_def chunk_def D_def Let_def by (rule refl)
  also have "\<dots> = (\<lambda>q. if q div D < G \<and> 0 \<le> q mod D \<and> q mod D < D then V q else dgamma q)"
    by (rule covers_fold_region[OF c ch])
  also have "\<dots> = (\<lambda>q. if q < G * D then V q else dgamma q)"
  proof (cases "D = 0")
    case True
    then show ?thesis by simp
  next
    case False
    then have "q div D < G \<longleftrightarrow> q < G * D" for q
      by (simp add: div_less_iff_less_mult mult.commute)
    then show ?thesis using False by (simp add: fun_eq_iff)
  qed
  finally show ?thesis unfolding V_def D_def .
qed

lemma fold_rows:
  "fold (\<lambda>i s. s\<lparr>ds_data := (ds_data s)(i := F i), db_data := (db_data s)(i := H i)\<rparr>) [0..<n] s =
     s\<lparr>ds_data := (\<lambda>i. if i < n then F i else ds_data s i),
       db_data := (\<lambda>i. if i < n then H i else db_data s i)\<rparr>"
proof (induction n)
  case 0
  then show ?case by simp
next
  case (Suc n)
  show ?case
    apply (simp only: fold_upt_Suc Suc.IH)
    apply (auto simp: fun_eq_iff)
    done
qed

lemma fold_snd_indep:
  "snd (fold (\<lambda>x p. (f x p, g x (snd p))) xs p0) = fold g xs (snd p0)"
  by (induction xs arbitrary: p0) simp_all

section \<open>Backward: which outputs are written\<close>

text \<open>
  C9. For every valid backward call (a valid pool, \<open>G > 0\<close> dividing \<open>C\<close>, the element counts
  as checked), each of \<open>dX\<close>, \<open>dGamma\<close> and \<open>dBeta\<close> is written if and only if it was requested:
  an output that was not requested (an undefined tensor, \<open>None\<close>) stays as it was, and of a
  requested output every element of the tensor gets a value that does not depend on the
  prior contents, while the memory behind the tensor is left alone. This holds for every
  instance of the templates, whatever the rounding.
\<close>

theorem backward_writes_the_requested_outputs:
  assumes "valid_pool pool" "0 < G" "G dvd C"
    and "numel dY = N * C * HxW" "numel X = N * C * HxW"
    and "numel mean = N * G" "numel rstd = N * G"
    and "gamma = None \<or> numel (the gamma) = C"
  shows "\<exists>FX FG FB. \<forall>s.
     GroupNormBackwardKernelImpl lanes pool uninit scalar_t mixed_type dY X mean rstd gamma
       N C HxW G s =
     Inr \<lparr>dX_data = map_option (\<lambda>b q. if q < N * C * HxW then FX q else b q) (dX_data s),
          dgamma_data = map_option (\<lambda>b q. if q < C then FG q else b q) (dgamma_data s),
          dbeta_data = map_option (\<lambda>b q. if q < C then FB q else b q) (dbeta_data s)\<rparr>"
proof -
  have GD: "G * (C div G) = C" using assms(3) by simp
  have ext: "N * G * (C div G * HxW) = N * C * HxW"
    using GD by (metis mult.assoc)
  have internal: "\<exists>FX FG FB. \<forall>s.
     GroupNormBackwardKernelImplInternal nm pool uninit dY X mean rstd gamma N C HxW G s =
     Inr \<lparr>dX_data = map_option (\<lambda>b q. if q < N * C * HxW then FX q else b q) (dX_data s),
          dgamma_data = map_option (\<lambda>b q. if q < C then FG q else b q) (dgamma_data s),
          dbeta_data = map_option (\<lambda>b q. if q < C then FB q else b q) (dbeta_data s)\<rparr>" for nm
  proof -
    define grads where "grads = ComputeInternalGradients nm pool N C HxW (data_ptr dY) (data_ptr X)
                      \<lparr>ds_data = uninit, db_data = uninit\<rparr>"
    have "GroupNormBackwardKernelImplInternal nm pool uninit dY X mean rstd gamma N C HxW G s =
       Inr \<lparr>dX_data = map_option (GroupNormInputBackward nm pool N C HxW G (data_ptr dY)
                                      (data_ptr X) (data_ptr mean) (data_ptr rstd)
                                      (map_option data_ptr gamma)
                                      (ds_data grads) (db_data grads)) (dX_data s),
            dgamma_data = map_option (GammaBackward nm pool N C G (data_ptr mean)
                                            (data_ptr rstd) (ds_data grads) (db_data grads))
                                (dgamma_data s),
            dbeta_data = map_option (BetaBackward nm pool N C (db_data grads)) (dbeta_data s)\<rparr>"
      for s
      using assms(2,4-8)
      by (simp add: GroupNormBackwardKernelImplInternal_def Let_def grads_def int64_mult)
    then have "\<forall>s.
       GroupNormBackwardKernelImplInternal nm pool uninit dY X mean rstd gamma N C HxW G s =
       Inr \<lparr>dX_data = map_option (\<lambda>b q. if q < N * C * HxW
               then input_backward_unit nm C HxW G (data_ptr dY) (data_ptr X) (data_ptr mean)
                      (data_ptr rstd) (map_option data_ptr gamma) (ds_data grads) (db_data grads)
                      (q div (C div G * HxW)) (\<lambda>_. 0) q
               else b q) (dX_data s),
            dgamma_data = map_option (\<lambda>b q. if q < C
               then fold (\<lambda>i acc. if q div (C div G) = i mod G
                      then fadd (to_PT nm) acc
                             (fmul (to_PT nm)
                                (fsub (to_PT nm) (ds_data grads (i * (C div G) + q mod (C div G)))
                                   (fmul (to_PT nm) (db_data grads (i * (C div G) + q mod (C div G)))
                                      (data_ptr mean i)))
                                (data_ptr rstd i))
                      else acc) [0..<N * G] 0
               else b q) (dgamma_data s),
            dbeta_data = map_option (\<lambda>b q. if q < C
               then fold (\<lambda>i acc. fadd (to_PT nm) acc (db_data grads (i * C + q))) [0..<N] 0
               else b q) (dbeta_data s)\<rparr>"
      unfolding GroupNormInputBackward_shape[OF assms(1)] GammaBackward_shape[OF assms(1,2)]
        BetaBackward_shape[OF assms(1)] ext GD
      by simp
    then show ?thesis
      by (intro exI)
  qed
  show ?thesis
    unfolding GroupNormBackwardKernelImpl_def
    by (cases mixed_type) (simp_all add: internal)
qed

theorem backward_writes_the_requested_outputs_witness:
  "valid_pool two_threads \<and> (0::nat) < 2 \<and> (2::nat) dvd 4
   \<and> numel \<lparr>numel = 12, data_ptr = (\<lambda>i. 1)\<rparr> = 1 * 4 * 3
   \<and> numel \<lparr>numel = 2, data_ptr = (\<lambda>i. 1)\<rparr> = 1 * 2
   \<and> (\<exists>FX FG FB. \<forall>s.
        GroupNormBackwardKernelImpl (\<lambda>t. 8) two_threads (\<lambda>i. 0) Float False
          \<lparr>numel = 12, data_ptr = (\<lambda>i. 1)\<rparr> \<lparr>numel = 12, data_ptr = (\<lambda>i. real i)\<rparr>
          \<lparr>numel = 2, data_ptr = (\<lambda>i. 1)\<rparr> \<lparr>numel = 2, data_ptr = (\<lambda>i. 1)\<rparr> None 1 4 3 2 s =
        Inr \<lparr>dX_data = map_option (\<lambda>b q. if q < 1 * 4 * 3 then FX q else b q) (dX_data s),
             dgamma_data = map_option (\<lambda>b q. if q < 4 then FG q else b q) (dgamma_data s),
             dbeta_data = map_option (\<lambda>b q. if q < 4 then FB q else b q) (dbeta_data s)\<rparr>)"
  using backward_writes_the_requested_outputs
    [of two_threads 2 4 "\<lparr>numel = 12, data_ptr = (\<lambda>i. 1)\<rparr>" 1 3
        "\<lparr>numel = 12, data_ptr = (\<lambda>i. real i)\<rparr>" "\<lparr>numel = 2, data_ptr = (\<lambda>i. 1)\<rparr>"
        "\<lparr>numel = 2, data_ptr = (\<lambda>i. 1)\<rparr>" None "\<lambda>t. 8" "\<lambda>i. 0" Float False]
    valid_two_threads
  by simp

lemma sum_list_take_drop: "sum_list (take n xs) + sum_list (drop n xs) = sum_list (xs :: real list)"
  by (metis append_take_drop_id sum_list_append)

lemma length_halves [simp]:
  "length (fst (convert_bfloat16_float v)) = length v div 2"
  "length (snd (convert_bfloat16_float v)) = length v - length v div 2"
  by (simp_all add: convert_bfloat16_float_def)

lemma sum_list_halves:
  "sum_list (fst (convert_bfloat16_float v)) + sum_list (snd (convert_bfloat16_float v)) = sum_list v"
  by (simp add: convert_bfloat16_float_def sum_list_take_drop)

lemma sum_list_vmul_halves:
  assumes "length a = length b"
  shows "sum_list (vmul (\<lambda>x. x) (fst (convert_bfloat16_float a)) (fst (convert_bfloat16_float b)))
       + sum_list (vmul (\<lambda>x. x) (snd (convert_bfloat16_float a)) (snd (convert_bfloat16_float b)))
       = sum_list (vmul (\<lambda>x. x) a b)"
proof -
  define n where "n = length a div 2"
  have "vmul (\<lambda>x. x) (take n a) (take n b) = take n (vmul (\<lambda>x. x) a b)"
    by (simp add: vmul_def take_map take_zip)
  moreover have "vmul (\<lambda>x. x) (drop n a) (drop n b) = drop n (vmul (\<lambda>x. x) a b)"
    by (simp add: vmul_def drop_map drop_zip)
  ultimately show ?thesis
    using assms by (simp add: convert_bfloat16_float_def n_def sum_list_take_drop)
qed

lemma gradient_blocks_BFloat16:
  "length a = KA \<Longrightarrow> length b = KA \<Longrightarrow> K = 2 * KA \<Longrightarrow>
   fold (\<lambda>j (ds_vec, db_vec).
           let dy_bvec = loadu K dY (p + j);
               x_bvec = loadu K X (q + j);
               (x_fvec0, x_fvec1) = convert_bfloat16_float x_bvec;
               (dy_fvec0, dy_fvec1) = convert_bfloat16_float dy_bvec;
               ds_vec1 = vadd (\<lambda>x. x) ds_vec (vmul (\<lambda>x. x) dy_fvec0 x_fvec0);
               ds_vec2 = vadd (\<lambda>x. x) ds_vec1 (vmul (\<lambda>x. x) dy_fvec1 x_fvec1)
           in (ds_vec2, vadd (\<lambda>x. x) (vadd (\<lambda>x. x) db_vec dy_fvec0) dy_fvec1))
     (map (\<lambda>b. b * K) [0..<m]) (a, b) = (a', b') \<Longrightarrow>
   length a' = KA \<and> length b' = KA
   \<and> sum_list a' = sum_list a + (\<Sum>k<m * K. dY (p + k) * X (q + k))
   \<and> sum_list b' = sum_list b + (\<Sum>k<m * K. dY (p + k))"
proof (induction m arbitrary: a' b')
  case 0
  then show ?case by simp
next
  case (Suc m)
  define F where "F = (\<lambda>j (ds_vec, db_vec).
           let dy_bvec = loadu K dY (p + j);
               x_bvec = loadu K X (q + j);
               (x_fvec0, x_fvec1) = convert_bfloat16_float x_bvec;
               (dy_fvec0, dy_fvec1) = convert_bfloat16_float dy_bvec;
               ds_vec1 = vadd (\<lambda>x. x) ds_vec (vmul (\<lambda>x. x) dy_fvec0 x_fvec0);
               ds_vec2 = vadd (\<lambda>x. x) ds_vec1 (vmul (\<lambda>x. x) dy_fvec1 x_fvec1)
           in (ds_vec2, vadd (\<lambda>x. x) (vadd (\<lambda>x. x) db_vec dy_fvec0) dy_fvec1))"
  obtain a1 b1 where mid: "fold F (map (\<lambda>b. b * K) [0..<m]) (a, b) = (a1, b1)"
    by (cases "fold F (map (\<lambda>b. b * K) [0..<m]) (a, b)")
  have ih: "length a1 = KA \<and> length b1 = KA
     \<and> sum_list a1 = sum_list a + (\<Sum>k<m * K. dY (p + k) * X (q + k))
     \<and> sum_list b1 = sum_list b + (\<Sum>k<m * K. dY (p + k))"
    using Suc.IH[OF Suc.prems(1,2,3)] mid unfolding F_def by blast
  define dy where "dy = loadu K dY (p + m * K)"
  define x where "x = loadu K X (q + m * K)"
  have len: "length dy = 2 * KA" "length x = 2 * KA"
    using Suc.prems(3) by (simp_all add: dy_def x_def)
  have "F (m * K) (a1, b1) = (a', b')"
    using Suc.prems(4) mid unfolding F_def[symmetric] by simp
  then have a': "a' = vadd (\<lambda>x. x)
        (vadd (\<lambda>x. x) a1 (vmul (\<lambda>x. x) (fst (convert_bfloat16_float dy))
                                (fst (convert_bfloat16_float x))))
        (vmul (\<lambda>x. x) (snd (convert_bfloat16_float dy)) (snd (convert_bfloat16_float x)))"
    and b': "b' = vadd (\<lambda>x. x) (vadd (\<lambda>x. x) b1 (fst (convert_bfloat16_float dy)))
                    (snd (convert_bfloat16_float dy))"
    by (simp_all add: F_def Let_def split_def dy_def x_def)
  have la: "length a' = KA" "length b' = KA"
    using ih len by (simp_all add: a' b')
  have "sum_list a' = sum_list a1 + sum_list (vmul (\<lambda>x. x) dy x)"
    using ih len
    by (simp add: a' sum_list_vadd sum_list_vmul_halves[symmetric, of dy x] add.assoc)
  then have sa: "sum_list a' = sum_list a1 + (\<Sum>l<K. dY (p + (m * K + l)) * X (q + (m * K + l)))"
    by (simp add: dy_def x_def vmul_loadu sum_list_loadu add.assoc)
  have "sum_list b' = sum_list b1 + sum_list dy"
    using ih len by (simp add: b' sum_list_vadd sum_list_halves[symmetric, of dy] add.assoc)
  then have sb: "sum_list b' = sum_list b1 + (\<Sum>l<K. dY (p + (m * K + l)))"
    by (simp add: dy_def sum_list_loadu add.assoc)
  show ?case
    using ih la
    by (simp add: sa sb sum_block[where h = "\<lambda>k. dY (p + k) * X (q + k)"]
        sum_block[where h = "\<lambda>k. dY (p + k)"])
qed

lemma internal_gradients_row_BFloat16_exact:
  assumes "to_PT nm = (\<lambda>x. x)" "0 < vec_size_PT nm" "vec_size_T nm = 2 * vec_size_PT nm"
  shows "internal_gradients_row_BFloat16 nm HxW dY X i s =
     s\<lparr>ds_data := (ds_data s)(i := (\<Sum>k<HxW. dY (i * HxW + k) * X (i * HxW + k))),
       db_data := (db_data s)(i := (\<Sum>k<HxW. dY (i * HxW + k)))\<rparr>"
proof -
  define K where "K = vec_size_T nm"
  define KA where "KA = vec_size_PT nm"
  have K: "0 < K" "K = 2 * KA" using assms(2,3) by (simp_all add: K_def KA_def)
  define F where "F = (\<lambda>j (ds_vec, db_vec).
           let dy_bvec = loadu K dY (i * HxW + j);
               x_bvec = loadu K X (i * HxW + j);
               (x_fvec0, x_fvec1) = convert_bfloat16_float x_bvec;
               (dy_fvec0, dy_fvec1) = convert_bfloat16_float dy_bvec;
               ds_vec1 = vadd (\<lambda>x. x) ds_vec (vmul (\<lambda>x. x) dy_fvec0 x_fvec0);
               ds_vec2 = vadd (\<lambda>x. x) ds_vec1 (vmul (\<lambda>x. x) dy_fvec1 x_fvec1)
           in (ds_vec2, vadd (\<lambda>x. x) (vadd (\<lambda>x. x) db_vec dy_fvec0) dy_fvec1))"
  obtain a' b' where blocks:
    "fold F (map (\<lambda>b. b * K) [0..<HxW div K]) (vec_splat KA 0, vec_splat KA 0) = (a', b')"
    by (cases "fold F (map (\<lambda>b. b * K) [0..<HxW div K]) (vec_splat KA 0, vec_splat KA 0)")
  have sums: "sum_list a' = (\<Sum>k<HxW div K * K. dY (i * HxW + k) * X (i * HxW + k))"
     "sum_list b' = (\<Sum>k<HxW div K * K. dY (i * HxW + k))"
    using gradient_blocks_BFloat16[OF _ _ K(2) blocks[unfolded F_def]] by simp_all
  have le: "HxW div K * K \<le> HxW" by simp
  have "internal_gradients_row_BFloat16 nm HxW dY X i s =
     (let (ds_vec, db_vec) = fold F (map (\<lambda>b. b * K) [0..<HxW div K * K div K])
                               (vec_splat KA 0, vec_splat KA 0);
          ds_val = foldl (fadd (\<lambda>x. x)) 0 ds_vec;
          db_val = foldl (fadd (\<lambda>x. x)) 0 db_vec;
          (ds_val, db_val) =
            fold (\<lambda>j (ds_val, db_val).
                (fadd (\<lambda>x. x) ds_val (fmul (\<lambda>x. x) (dY (i * HxW + j)) (X (i * HxW + j))),
                 fadd (\<lambda>x. x) db_val (dY (i * HxW + j))))
              [HxW div K * K..<HxW] (ds_val, db_val)
      in s\<lparr>ds_data := (ds_data s)(i := ds_val), db_data := (db_data s)(i := db_val)\<rparr>)"
    unfolding internal_gradients_row_BFloat16_def F_def K_def KA_def assms(1)
    by (simp add: Let_def)
  also have "\<dots> = s\<lparr>ds_data := (ds_data s)(i := (\<Sum>k<HxW. dY (i * HxW + k) * X (i * HxW + k))),
       db_data := (db_data s)(i := (\<Sum>k<HxW. dY (i * HxW + k)))\<rparr>"
    using K(1)
    by (simp add: blocks foldl_fadd_exact sums fold_add_pair sum_list_upt_ivl sum_split_at[OF le])
  finally show ?thesis .
qed

lemma gradients_row_exact:
  assumes "exact_arithmetic nm" "lanes_ok nm"
  shows "gradients_row nm HxW dY X i s =
     s\<lparr>ds_data := (ds_data s)(i := (\<Sum>k<HxW. dY (i * HxW + k) * X (i * HxW + k))),
       db_data := (db_data s)(i := (\<Sum>k<HxW. dY (i * HxW + k)))\<rparr>"
proof (cases "bfloat16_T nm \<and> float_PT nm")
  case True
  then have "vec_size_T nm = 2 * vec_size_PT nm" "0 < vec_size_PT nm"
    using assms(2) by (simp_all add: lanes_ok_def)
  moreover have "gradients_row nm = internal_gradients_row_BFloat16 nm"
    using True by (simp add: gradients_row_def)
  moreover have "to_PT nm = (\<lambda>x. x)"
    using assms(1) by (simp add: exact_arithmetic_def)
  ultimately show ?thesis
    by (simp only: internal_gradients_row_BFloat16_exact)
next
  case False
  have "0 < vec_size_T nm" using lanes_ok_pos[OF assms(2)] by simp
  moreover have "gradients_row nm = internal_gradients_row nm"
    using False by (auto simp: gradients_row_def)
  moreover have "to_PT nm = (\<lambda>x. x)"
    using assms(1) by (simp add: exact_arithmetic_def)
  ultimately show ?thesis
    by (simp only: internal_gradients_row_exact)
qed

lemma ComputeInternalGradients_exact:
  assumes "valid_pool pool" "exact_arithmetic nm" "lanes_ok nm"
  shows "ComputeInternalGradients nm pool N C HxW dY X s =
     s\<lparr>ds_data := (\<lambda>i. if i < N * C then (\<Sum>k<HxW. dY (i * HxW + k) * X (i * HxW + k))
                         else ds_data s i),
       db_data := (\<lambda>i. if i < N * C then (\<Sum>k<HxW. dY (i * HxW + k)) else db_data s i)\<rparr>"
proof -
  have row: "gradients_row nm HxW dY X =
     (\<lambda>i s. s\<lparr>ds_data := (ds_data s)(i := (\<Sum>k<HxW. dY (i * HxW + k) * X (i * HxW + k))),
       db_data := (db_data s)(i := (\<Sum>k<HxW. dY (i * HxW + k)))\<rparr>)"
    by (intro ext) (rule gradients_row_exact[OF assms(2,3)])
  show ?thesis
    unfolding ComputeInternalGradients_def parallel_for_fold[OF assms(1)] row
    by (rule fold_rows)
qed

text \<open>The value of db for a row, as a function of dY alone\<close>

lemma internal_gradients_row_db:
  "db_data (internal_gradients_row nm HxW dY X i s) =
     (db_data s)(i := db_data (internal_gradients_row nm HxW dY (\<lambda>_. 0) i
                                 \<lparr>ds_data = (\<lambda>_. 0), db_data = (\<lambda>_. 0)\<rparr>) i)"
proof -
  define K where "K = vec_size_T nm"
  define r where "r = to_PT nm"
  define blocks where "blocks = map (\<lambda>b. b * K) [0..<HxW div K * K div K]"
  define g1 where "g1 = (\<lambda>j db_vec. vadd r db_vec (loadu K dY (i * HxW + j)))"
  define g2 where "g2 = (\<lambda>j db_val. fadd r db_val (dY (i * HxW + j)))"
  have val: "db_data (internal_gradients_row nm HxW dY X' i s') =
     (db_data s')(i := fold g2 [HxW div K * K..<HxW]
                        (foldl (fadd r) 0 (fold g1 blocks (vec_splat K 0))))" for X' s'
  proof -
    have "db_data (internal_gradients_row nm HxW dY X' i s') =
      (db_data s')(i := snd (fold (\<lambda>j p. (fadd r (fst p) (fmul r (dY (i * HxW + j)) (X' (i * HxW + j))),
                                   g2 j (snd p)))
            [HxW div K * K..<HxW]
            (foldl (fadd r) 0 (fst (fold (\<lambda>j p. (vadd r (fst p)
                     (vmul r (loadu K dY (i * HxW + j)) (loadu K X' (i * HxW + j))), g1 j (snd p)))
                  blocks (vec_splat K 0, vec_splat K 0))),
             foldl (fadd r) 0 (snd (fold (\<lambda>j p. (vadd r (fst p)
                     (vmul r (loadu K dY (i * HxW + j)) (loadu K X' (i * HxW + j))), g1 j (snd p)))
                  blocks (vec_splat K 0, vec_splat K 0))))))"
      unfolding internal_gradients_row_def Let_def split_def K_def r_def blocks_def g1_def g2_def
      by simp
    then show ?thesis
      unfolding fold_snd_indep[where g = g2] fold_snd_indep[where g = g1] by simp
  qed
  show ?thesis
    by (simp add: val)
qed

lemma internal_gradients_row_BFloat16_db:
  "db_data (internal_gradients_row_BFloat16 nm HxW dY X i s) =
     (db_data s)(i := db_data (internal_gradients_row_BFloat16 nm HxW dY (\<lambda>_. 0) i
                                 \<lparr>ds_data = (\<lambda>_. 0), db_data = (\<lambda>_. 0)\<rparr>) i)"
proof -
  define K where "K = vec_size_T nm"
  define KA where "KA = vec_size_PT nm"
  define r where "r = to_PT nm"
  define blocks where "blocks = map (\<lambda>b. b * K) [0..<HxW div K * K div K]"
  define g1 where "g1 = (\<lambda>j db_vec.
      vadd r (vadd r db_vec (fst (convert_bfloat16_float (loadu K dY (i * HxW + j)))))
        (snd (convert_bfloat16_float (loadu K dY (i * HxW + j)))))"
  define g2 where "g2 = (\<lambda>j db_val. fadd r db_val (dY (i * HxW + j)))"
  have val: "db_data (internal_gradients_row_BFloat16 nm HxW dY X' i s') =
     (db_data s')(i := fold g2 [HxW div K * K..<HxW]
                        (foldl (fadd r) 0 (fold g1 blocks (vec_splat KA 0))))" for X' s'
  proof -
    define f1 where "f1 = (\<lambda>j (p :: vec \<times> vec).
        vadd r (vadd r (fst p)
           (vmul r (fst (convert_bfloat16_float (loadu K dY (i * HxW + j))))
                   (fst (convert_bfloat16_float (loadu K X' (i * HxW + j))))))
           (vmul r (snd (convert_bfloat16_float (loadu K dY (i * HxW + j))))
                   (snd (convert_bfloat16_float (loadu K X' (i * HxW + j))))))"
    define f2 where "f2 = (\<lambda>j (p :: real \<times> real).
        fadd r (fst p) (fmul r (dY (i * HxW + j)) (X' (i * HxW + j))))"
    have "db_data (internal_gradients_row_BFloat16 nm HxW dY X' i s') =
      (db_data s')(i := snd (fold (\<lambda>j p. (f2 j p, g2 j (snd p)))
            [HxW div K * K..<HxW]
            (foldl (fadd r) 0 (fst (fold (\<lambda>j p. (f1 j p, g1 j (snd p)))
                  blocks (vec_splat KA 0, vec_splat KA 0))),
             foldl (fadd r) 0 (snd (fold (\<lambda>j p. (f1 j p, g1 j (snd p)))
                  blocks (vec_splat KA 0, vec_splat KA 0))))))"
      unfolding internal_gradients_row_BFloat16_def Let_def split_def K_def KA_def r_def
        blocks_def g1_def g2_def f1_def f2_def
      by simp
    then show ?thesis
      unfolding fold_snd_indep by simp
  qed
  show ?thesis
    by (simp add: val)
qed

lemma gradients_row_db:
  "db_data (gradients_row nm HxW dY X i s) =
     (db_data s)(i := db_data (gradients_row nm HxW dY (\<lambda>_. 0) i
                                 \<lparr>ds_data = (\<lambda>_. 0), db_data = (\<lambda>_. 0)\<rparr>) i)"
proof (cases "bfloat16_T nm \<and> float_PT nm")
  case True
  then have "gradients_row nm = internal_gradients_row_BFloat16 nm"
    by (simp add: gradients_row_def)
  then show ?thesis
    by (simp only: internal_gradients_row_BFloat16_db[of nm HxW dY X i s])
next
  case False
  then have "gradients_row nm = internal_gradients_row nm"
    by (auto simp: gradients_row_def)
  then show ?thesis
    by (simp only: internal_gradients_row_db[of nm HxW dY X i s])
qed

lemma ComputeInternalGradients_db:
  assumes "valid_pool pool"
  shows "db_data (ComputeInternalGradients nm pool N C HxW dY X s) =
     (\<lambda>i. if i < N * C
          then db_data (gradients_row nm HxW dY (\<lambda>_. 0) i
                          \<lparr>ds_data = (\<lambda>_. 0), db_data = (\<lambda>_. 0)\<rparr>) i
          else db_data s i)"
proof -
  have "db_data (fold (gradients_row nm HxW dY X) [0..<n] s) =
     (\<lambda>i. if i < n
          then db_data (gradients_row nm HxW dY (\<lambda>_. 0) i
                          \<lparr>ds_data = (\<lambda>_. 0), db_data = (\<lambda>_. 0)\<rparr>) i
          else db_data s i)" for n
  proof (induction n)
    case 0
    then show ?case by simp
  next
    case (Suc n)
    show ?case
      apply (subst fold_upt_Suc)
      apply (subst gradients_row_db)
      apply (subst Suc.IH)
      apply (auto simp: fun_eq_iff)
      done
  qed
  then show ?thesis
    unfolding ComputeInternalGradients_def parallel_for_fold[OF assms] .
qed

lemma backward_internal_returns:
  assumes "numel dY = N * C * HxW" "numel X = N * C * HxW"
    and "numel mean = N * G" "numel rstd = N * G"
    and "gamma = None \<or> numel (the gamma) = C"
    and "0 < G \<or> (dX_data s = None \<and> dgamma_data s = None)"
  shows "GroupNormBackwardKernelImplInternal nm pool uninit dY X mean rstd gamma N C HxW G s =
     Inr \<lparr>dX_data = map_option (GroupNormInputBackward nm pool N C HxW G (data_ptr dY)
                 (data_ptr X) (data_ptr mean) (data_ptr rstd) (map_option data_ptr gamma)
                 (ds_data (ComputeInternalGradients nm pool N C HxW (data_ptr dY) (data_ptr X)
                             \<lparr>ds_data = uninit, db_data = uninit\<rparr>))
                 (db_data (ComputeInternalGradients nm pool N C HxW (data_ptr dY) (data_ptr X)
                             \<lparr>ds_data = uninit, db_data = uninit\<rparr>))) (dX_data s),
          dgamma_data = map_option (GammaBackward nm pool N C G (data_ptr mean) (data_ptr rstd)
                 (ds_data (ComputeInternalGradients nm pool N C HxW (data_ptr dY) (data_ptr X)
                             \<lparr>ds_data = uninit, db_data = uninit\<rparr>))
                 (db_data (ComputeInternalGradients nm pool N C HxW (data_ptr dY) (data_ptr X)
                             \<lparr>ds_data = uninit, db_data = uninit\<rparr>))) (dgamma_data s),
          dbeta_data = map_option (BetaBackward nm pool N C
                 (db_data (ComputeInternalGradients nm pool N C HxW (data_ptr dY) (data_ptr X)
                             \<lparr>ds_data = uninit, db_data = uninit\<rparr>))) (dbeta_data s)\<rparr>"
  using assms
  by (auto simp: GroupNormBackwardKernelImplInternal_def Let_def int64_mult)

lemma row_in_range: "i < N \<Longrightarrow> q < C \<Longrightarrow> i * C + q < N * (C::nat)"
proof -
  assume h: "i < N" "q < C"
  have "i * C + q < i * C + C" using h by simp
  also have "\<dots> = (i + 1) * C" by simp
  also have "\<dots> \<le> N * C" using h by (intro mult_le_mono1) simp
  finally show ?thesis .
qed

lemma fold_add_sum: "fold (\<lambda>i acc. acc + h i) [0..<n] (a::real) = a + (\<Sum>i<n. h i)"
  by (induction n) simp_all

lemma dbeta_value:
  assumes "valid_pool pool"
  shows "BetaBackward nm pool N C
           (db_data (ComputeInternalGradients nm pool N C HxW dY X s)) dbeta =
         (\<lambda>q. if q < C
            then fold (\<lambda>i acc. fadd (to_PT nm) acc
                 (db_data (gradients_row nm HxW dY (\<lambda>_. 0) (i * C + q)
                             \<lparr>ds_data = (\<lambda>_. 0), db_data = (\<lambda>_. 0)\<rparr>) (i * C + q)))
              [0..<N] 0
            else dbeta q)"
proof (rule ext)
  fix q
  show "BetaBackward nm pool N C
           (db_data (ComputeInternalGradients nm pool N C HxW dY X s)) dbeta q =
         (if q < C
            then fold (\<lambda>i acc. fadd (to_PT nm) acc
                 (db_data (gradients_row nm HxW dY (\<lambda>_. 0) (i * C + q)
                             \<lparr>ds_data = (\<lambda>_. 0), db_data = (\<lambda>_. 0)\<rparr>) (i * C + q)))
              [0..<N] 0
            else dbeta q)"
    unfolding BetaBackward_shape[OF assms] ComputeInternalGradients_db[OF assms]
    by (auto intro!: fold_cong simp: row_in_range)
qed

section \<open>Backward: the gradient of beta\<close>



lemma gamma_vec_loadu:
  "(case gamma of None \<Rightarrow> vec_splat K 1 | Some gm \<Rightarrow> loadu K gm (gp + j)) =
   loadu K (\<lambda>c. case gamma of None \<Rightarrow> 1 | Some gm \<Rightarrow> gm c) (gp + j)"
  by (cases gamma) (simp_all add: vec_splat_def loadu_def map_replicate_const)

lemma CalcDsDb_blocks:
  "length a = K \<Longrightarrow> length b = K \<Longrightarrow>
   fold (\<lambda>j (ds_vec, db_vec).
         let gamma_vec = (case gamma of None \<Rightarrow> vec_splat K 1
                          | Some gm \<Rightarrow> loadu K gm (gp + j))
         in (vadd (\<lambda>x. x) ds_vec (vmul (\<lambda>x. x) (loadu K ds (p + j)) gamma_vec),
             vadd (\<lambda>x. x) db_vec (vmul (\<lambda>x. x) (loadu K db (q + j)) gamma_vec)))
     (map (\<lambda>b. b * K) [0..<m]) (a, b) = (a', b') \<Longrightarrow>
   length a' = K \<and> length b' = K
   \<and> sum_list a' = sum_list a
        + (\<Sum>k<m * K. ds (p + k) * (case gamma of None \<Rightarrow> 1 | Some gm \<Rightarrow> gm (gp + k)))
   \<and> sum_list b' = sum_list b
        + (\<Sum>k<m * K. db (q + k) * (case gamma of None \<Rightarrow> 1 | Some gm \<Rightarrow> gm (gp + k)))"
proof (induction m arbitrary: a' b')
  case 0
  then show ?case by simp
next
  case (Suc m)
  define gv where "gv = (\<lambda>c. case gamma of None \<Rightarrow> (1::real) | Some gm \<Rightarrow> gm c)"
  define F where "F = (\<lambda>j (ds_vec, db_vec).
         let gamma_vec = (case gamma of None \<Rightarrow> vec_splat K 1
                          | Some gm \<Rightarrow> loadu K gm (gp + j))
         in (vadd (\<lambda>x. x) ds_vec (vmul (\<lambda>x. x) (loadu K ds (p + j)) gamma_vec),
             vadd (\<lambda>x. x) db_vec (vmul (\<lambda>x. x) (loadu K db (q + j)) gamma_vec)))"
  obtain a1 b1 where mid: "fold F (map (\<lambda>b. b * K) [0..<m]) (a, b) = (a1, b1)"
    by (cases "fold F (map (\<lambda>b. b * K) [0..<m]) (a, b)")
  have ih: "length a1 = K \<and> length b1 = K
     \<and> sum_list a1 = sum_list a + (\<Sum>k<m * K. ds (p + k) * gv (gp + k))
     \<and> sum_list b1 = sum_list b + (\<Sum>k<m * K. db (q + k) * gv (gp + k))"
    using Suc.IH[OF Suc.prems(1,2)] mid unfolding F_def gv_def by blast
  have "F (m * K) (a1, b1) = (a', b')"
    using Suc.prems(3) mid unfolding F_def[symmetric] by simp
  then have a': "a' = vadd (\<lambda>x. x) a1 (vmul (\<lambda>x. x) (loadu K ds (p + m * K))
                                               (loadu K gv (gp + m * K)))"
    and b': "b' = vadd (\<lambda>x. x) b1 (vmul (\<lambda>x. x) (loadu K db (q + m * K))
                                       (loadu K gv (gp + m * K)))"
    by (simp_all add: F_def Let_def gamma_vec_loadu gv_def)
  have sa: "sum_list a' = sum_list a1 + (\<Sum>l<K. ds (p + (m * K + l)) * gv (gp + (m * K + l)))"
    using ih by (simp add: a' vmul_loadu sum_list_vadd sum_list_loadu add.assoc)
  have sb: "sum_list b' = sum_list b1 + (\<Sum>l<K. db (q + (m * K + l)) * gv (gp + (m * K + l)))"
    using ih by (simp add: b' vmul_loadu sum_list_vadd sum_list_loadu add.assoc)
  have la: "length a' = K" "length b' = K"
    using ih by (simp_all add: a' b')
  have fin: "length a' = K \<and> length b' = K
     \<and> sum_list a' = sum_list a + (\<Sum>k<Suc m * K. ds (p + k) * gv (gp + k))
     \<and> sum_list b' = sum_list b + (\<Sum>k<Suc m * K. db (q + k) * gv (gp + k))"
    using ih la
    by (simp add: sa sb sum_block[where h = "\<lambda>k. ds (p + k) * gv (gp + k)"]
        sum_block[where h = "\<lambda>k. db (q + k) * gv (gp + k)"])
  show ?case
    using fin unfolding gv_def .
qed

lemma input_backward_sums_exact:
  assumes "to_PT nm = (\<lambda>x. x)" "0 < vec_size_PT nm"
  shows "input_backward_sums nm D g gamma ds db i =
     ((\<Sum>j<D. ds (i * D + j) * (case gamma of None \<Rightarrow> 1 | Some gm \<Rightarrow> gm (g * D + j))),
      (\<Sum>j<D. db (i * D + j) * (case gamma of None \<Rightarrow> 1 | Some gm \<Rightarrow> gm (g * D + j))))"
proof -
  define K where "K = vec_size_PT nm"
  have K: "0 < K" using assms(2) by (simp add: K_def)
  define gv where "gv = (\<lambda>c. case gamma of None \<Rightarrow> (1::real) | Some gm \<Rightarrow> gm c)"
  have n: "(D div K * K + K - 1) div K = D div K"
  proof -
    have "D div K * K + K - 1 = (K - 1) + D div K * K" using K by simp
    moreover have "((K - 1) + D div K * K) div K = (K - 1) div K + D div K"
      using K by (simp only: div_mult_self1[OF less_imp_neq[OF K, symmetric]])
    moreover have "(K - 1) div K = 0" using K by simp
    ultimately show ?thesis by simp
  qed
  obtain a' b' where blocks:
    "CalcDsDb (\<lambda>x. x) K ds (i * D) db (i * D) gamma (g * D) (D div K * K) = (a', b')"
    by (cases "CalcDsDb (\<lambda>x. x) K ds (i * D) db (i * D) gamma (g * D) (D div K * K)")
  have sums: "sum_list a' = (\<Sum>k<D div K * K. ds (i * D + k) * gv (g * D + k))"
    "sum_list b' = (\<Sum>k<D div K * K. db (i * D + k) * gv (g * D + k))"
    using CalcDsDb_blocks[OF _ _ blocks[unfolded CalcDsDb_def n]] by (simp_all add: gv_def)
  have le: "D div K * K \<le> D" by simp
  have "input_backward_sums nm D g gamma ds db i =
      fold (\<lambda>j (ds_val, db_val).
             (ds_val + ds (i * D + j) * gv (g * D + j), db_val + db (i * D + j) * gv (g * D + j)))
           [D div K * K..<D] (sum_list a', sum_list b')"
    unfolding input_backward_sums_def Let_def K_def[symmetric] assms(1) blocks
    by (simp add: foldl_fadd_exact gv_def)
  also have "\<dots> = ((\<Sum>j<D. ds (i * D + j) * gv (g * D + j)),
                    (\<Sum>j<D. db (i * D + j) * gv (g * D + j)))"
    by (simp add: fold_add_pair sums sum_list_upt_ivl sum_split_at[OF le])
  finally show ?thesis unfolding gv_def .
qed

lemma unit_index:
  fixes D :: nat
  assumes "g < G" "j < D" "k < HxW"
  shows "((n * G + g) * D + j) * HxW + k < (n * G + g + 1) * (D * HxW)"
    and "(n * G + g) * (D * HxW) \<le> ((n * G + g) * D + j) * HxW + k"
    and "(((n * G + g) * D + j) * HxW + k) div (D * HxW) = n * G + g"
    and "(((n * G + g) * D + j) * HxW + k) div HxW = (n * G + g) * D + j"
proof -
  define i where "i = n * G + g"
  have e: "(i * D + j) * HxW + k = i * (D * HxW) + (j * HxW + k)"
    by (simp add: algebra_simps)
  have "j * HxW + k < j * HxW + HxW" using assms(3) by simp
  also have "\<dots> = (j + 1) * HxW" by simp
  also have "\<dots> \<le> D * HxW" using assms(2) by (intro mult_le_mono1) simp
  finally have lt: "j * HxW + k < D * HxW" .
  show "((n * G + g) * D + j) * HxW + k < (n * G + g + 1) * (D * HxW)"
    using lt unfolding i_def[symmetric] e by (simp add: algebra_simps)
  show "(n * G + g) * (D * HxW) \<le> ((n * G + g) * D + j) * HxW + k"
    unfolding i_def[symmetric] e by simp
  have nz: "D * HxW \<noteq> 0" using lt by (cases "D * HxW = 0") simp_all
  show "(((n * G + g) * D + j) * HxW + k) div (D * HxW) = n * G + g"
    unfolding i_def[symmetric] e div_mult_self3[OF nz] using lt by simp
  show "(((n * G + g) * D + j) * HxW + k) div HxW = (n * G + g) * D + j"
    using assms(3) by simp
qed

lemma unit_in_range:
  fixes D :: nat
  assumes "n < N" "g < G" "j < D" "k < HxW"
  shows "((n * G + g) * D + j) * HxW + k < N * G * (D * HxW)"
proof -
  have "n * G + g < n * G + G" using assms(2) by simp
  also have "\<dots> = (n + 1) * G" by simp
  also have "\<dots> \<le> N * G" using assms(1) by (intro mult_le_mono1) simp
  finally have "n * G + g + 1 \<le> N * G" by simp
  then have "(n * G + g + 1) * (D * HxW) \<le> N * G * (D * HxW)"
    by (rule mult_le_mono1)
  then show ?thesis
    using unit_index(1)[OF assms(2,3,4), of n] by simp
qed

lemma channel_in_range:
  fixes D :: nat
  assumes "n < N" "g < G" "j < D"
  shows "(n * G + g) * D + j < N * (G * D)"
proof -
  have "n * G + g < n * G + G" using assms(2) by simp
  also have "\<dots> = (n + 1) * G" by simp
  also have "\<dots> \<le> N * G" using assms(1) by (intro mult_le_mono1) simp
  finally have "n * G + g + 1 \<le> N * G" by simp
  then have "(n * G + g + 1) * D \<le> N * G * D"
    by (rule mult_le_mono1)
  moreover have "(n * G + g) * D + j < (n * G + g + 1) * D"
    using assms(3) by simp
  ultimately show ?thesis by (simp add: mult.assoc)
qed

lemma input_gradient_value:
  assumes "valid_pool pool" "exact_arithmetic nm" "lanes_ok nm" "0 < G" "C = G * D"
    and "n < N" "g < G" "j < D" "k < HxW"
  shows "GroupNormInputBackward nm pool N C HxW G dY X mean rstd gamma
           (ds_data (ComputeInternalGradients nm pool N C HxW dY X s0))
           (db_data (ComputeInternalGradients nm pool N C HxW dY X s0)) b
           ((n * C + (g * D + j)) * HxW + k) =
         dX_spec dY X mean rstd gamma C HxW G n g (g * D + j) k"
proof -
  have D: "C div G = D" using assms(4,5) by simp
  define i where "i = n * G + g"
  define q where "q = (i * D + j) * HxW + k"
  have q: "(n * C + (g * D + j)) * HxW + k = q"
    unfolding q_def i_def assms(5) by (simp add: algebra_simps)
  have ex: "to_T nm = (\<lambda>x. x)" "to_PT nm = (\<lambda>x. x)"
    using assms(2) by (simp_all add: exact_arithmetic_def)
  have K: "0 < vec_size_PT nm" using lanes_ok_pos[OF assms(3)] by simp
  have r1: "q < N * G * (D * HxW)"
    unfolding q_def i_def by (rule unit_in_range[OF assms(6-9)])
  have r2: "q div (D * HxW) = i" "i * (D * HxW) \<le> q" "q < (i + 1) * (D * HxW)"
    "q div HxW = i * D + j"
    unfolding q_def i_def using unit_index[OF assms(7-9), of n] by simp_all
  have ig: "i mod G = g" unfolding i_def using assms(7) by simp
  have jq: "q div HxW - i * D = j" using r2(4) by simp
  have chan: "i * D + j' < N * C" if "j' < D" for j'
    unfolding i_def assms(5) by (rule channel_in_range[OF assms(6,7) that])
  have chan_idx: "i * D + j' = n * C + (g * D + j')" for j'
    unfolding i_def assms(5) by (simp add: algebra_simps)
  have sums: "input_backward_sums nm D g gamma
        (ds_data (ComputeInternalGradients nm pool N C HxW dY X s0))
        (db_data (ComputeInternalGradients nm pool N C HxW dY X s0)) i =
      ((\<Sum>j<D. ds_spec dY X C HxW n (g * D + j) * gamma_or_one gamma (g * D + j)),
       (\<Sum>j<D. db_spec dY C HxW n (g * D + j) * gamma_or_one gamma (g * D + j)))"
    unfolding input_backward_sums_exact[OF ex(2) K]
      ComputeInternalGradients_exact[OF assms(1,2,3)]
    using chan
    by (auto intro!: sum.cong simp: chan_idx[symmetric] ds_spec_def db_spec_def gamma_or_one_def)
  define ds_g where
    "ds_g = (\<Sum>j<D. ds_spec dY X C HxW n (g * D + j) * gamma_or_one gamma (g * D + j))"
  define db_g where
    "db_g = (\<Sum>j<D. db_spec dY C HxW n (g * D + j) * gamma_or_one gamma (g * D + j))"
  define sc where "sc = 1 / real (D * HxW)"
  define m where "m = mean i"
  define r where "r = rstd i"
  define gc where "gc = gamma_or_one gamma (g * D + j)"
  have code: "GroupNormInputBackward nm pool N C HxW G dY X mean rstd gamma
           (ds_data (ComputeInternalGradients nm pool N C HxW dY X s0))
           (db_data (ComputeInternalGradients nm pool N C HxW dY X s0)) b q =
        r * gc * dY q + (db_g * m - ds_g) * r * r * r * sc * X q
        + (- ((db_g * m - ds_g) * r * r * r * sc) * m - db_g * r * sc)"
    unfolding GroupNormInputBackward_shape[OF assms(1)] D
    using r1 r2
    by (simp add: input_backward_unit_eq Let_def D ig jq sums ex ds_g_def db_g_def sc_def m_def
        r_def gc_def gamma_or_one_def del: mult_Suc_right split: option.split)
  have spec: "dX_spec dY X mean rstd gamma C HxW G n g (g * D + j) k =
        r * gc * dY q + (db_g * m - ds_g) * r ^ 3 * sc * X q
        + (- ((db_g * m - ds_g) * r ^ 3 * sc) * m - db_g * r * sc)"
    unfolding dX_spec_def Let_def D q i_def[symmetric] ds_g_def db_g_def sc_def m_def r_def gc_def
    by (rule refl)
  have "r * gc * dY q + (db_g * m - ds_g) * r * r * r * sc * X q
        + (- ((db_g * m - ds_g) * r * r * r * sc) * m - db_g * r * sc) =
        r * gc * dY q + (db_g * m - ds_g) * r ^ 3 * sc * X q
        + (- ((db_g * m - ds_g) * r ^ 3 * sc) * m - db_g * r * sc)"
    by (simp add: power3_eq_cube mult.assoc)
  then have "GroupNormInputBackward nm pool N C HxW G dY X mean rstd gamma
           (ds_data (ComputeInternalGradients nm pool N C HxW dY X s0))
           (db_data (ComputeInternalGradients nm pool N C HxW dY X s0)) b q =
        dX_spec dY X mean rstd gamma C HxW G n g (g * D + j) k"
    using code spec by simp
  then show ?thesis unfolding q .
qed

section \<open>Backward: the gradient of the input\<close>



lemma group_channel_in_range:
  fixes g G d C :: nat
  assumes "g < G" "d < C div G"
  shows "g * (C div G) + d < C"
proof -
  have "g * (C div G) + d < (g + 1) * (C div G)" using assms by simp
  also have "\<dots> \<le> G * (C div G)" using assms(1) by (intro mult_le_mono1) simp
  also have "\<dots> \<le> C" by simp
  finally show ?thesis .
qed

lemma fold_cong_upt: "(\<And>d. d < n \<Longrightarrow> f d = g d) \<Longrightarrow> fold f [0..<n] = fold g [0..<n]"
  by (rule ext, rule fold_cong) simp_all

lemma packed_unit_identity_affine:
  assumes ex: "exact_arithmetic nm" and G: "0 < G"
    and gm: "\<forall>c<C. gm c = 1" and bt: "\<forall>c<C. bt c = 0"
  shows "packed_unit nm rowwise X_data (Some gm) (Some bt) C HxW G eps i s =
         packed_unit nm rowwise X_data None None C HxW G eps i s"
proof -
  have r: "to_ACC nm = (\<lambda>x. x)" using ex by (simp add: exact_arithmetic_def)
  define D where "D = C div G"
  obtain mean_val var_val where mv: "rowwise (\<lambda>x. x) X_data (i * (D * HxW)) (D * HxW) = (mean_val, var_val)"
    by (cases "rowwise (\<lambda>x. x) X_data (i * (D * HxW)) (D * HxW)")
  define rstd_val where "rstd_val = 1 / sqrt (max var_val 0 + eps)"
  have in_range: "i mod G * D + j < C" if "j < D" for j
    using group_channel_in_range[of "i mod G" G j C] that G by (simp add: D_def)
  have rows: "fold (\<lambda>j. fold (\<lambda>k Y. Y((i * D + j) * HxW + k :=
                        to_T nm (rstd_val * gm (i mod G * D + j) * X_data ((i * D + j) * HxW + k)
                                 + (- (rstd_val * gm (i mod G * D + j)) * mean_val
                                    + bt (i mod G * D + j)))))
                        [0..<HxW])
                 [0..<D] =
             fold (\<lambda>j Y. fold (\<lambda>k Y. Y((i * D + j) * HxW + k :=
                               to_T nm (rstd_val * X_data ((i * D + j) * HxW + k)
                                          + - rstd_val * mean_val)))
                        [0..<HxW] Y)
                 [0..<D]"
    by (rule fold_cong_upt) (use in_range gm bt in simp)
  have flat: "fold (\<lambda>j Y. fold (\<lambda>k Y. Y((i * D + j) * HxW + k :=
                               to_T nm (rstd_val * X_data ((i * D + j) * HxW + k)
                                          + - rstd_val * mean_val)))
                        [0..<HxW] Y)
                 [0..<D] (Y_data s) =
        fold (\<lambda>j Y. Y(i * (D * HxW) + j := to_T nm ((X_data (i * (D * HxW) + j) - mean_val) * rstd_val)))
                 [0..<D * HxW] (Y_data s)"
  proof (rule ext)
    fix q
    have c: "(i * D * HxW \<le> q \<and> q < (i * D + D) * HxW) =
             (i * (D * HxW) \<le> q \<and> q < i * (D * HxW) + D * HxW)"
      by (simp add: algebra_simps)
    show "fold (\<lambda>j Y. fold (\<lambda>k Y. Y((i * D + j) * HxW + k :=
                               to_T nm (rstd_val * X_data ((i * D + j) * HxW + k)
                                          + - rstd_val * mean_val)))
                        [0..<HxW] Y)
                 [0..<D] (Y_data s) q =
        fold (\<lambda>j Y. Y(i * (D * HxW) + j := to_T nm ((X_data (i * (D * HxW) + j) - mean_val) * rstd_val)))
                 [0..<D * HxW] (Y_data s) q"
    proof (cases "i * (D * HxW) \<le> q \<and> q < i * (D * HxW) + D * HxW")
      case True
      then have pos: "0 < HxW" by (cases HxW) auto
      have "i * D * HxW \<le> q" using True by (simp add: algebra_simps)
      then have "i * D \<le> q div HxW"
        using pos by (simp add: less_eq_div_iff_mult_less_eq)
      then have idx: "(i * D + (q div HxW - i * D)) * HxW + q mod HxW = q"
        by simp
      have idx2: "i * (D * HxW) + (q - i * (D * HxW)) = q" using True by simp
      have "rstd_val * X_data q + - rstd_val * mean_val = (X_data q - mean_val) * rstd_val"
        by (simp add: algebra_simps)
      then show ?thesis
        using True c
        apply -
        apply (subst fold_write_rows)
        apply (subst fold_write_range)
        apply (simp only: idx idx2 if_True)
        done
    next
      case False
      then show ?thesis
        using c
        apply -
        apply (subst fold_write_rows)
        apply (subst fold_write_range)
        apply (simp only: if_False)
        done
    qed
  qed
  show ?thesis
    unfolding packed_unit_def
    apply (simp only: Let_def r mv split_conv D_def[symmetric] option.distinct option.case
        simp_thms if_False if_True arith_exact rstd_val_def[symmetric] rows flat)
    done
qed

lemma channels_last_unit_identity_affine:
  assumes g: "g < G" and gm: "\<forall>c<C. gm c = 1" and bt: "\<forall>c<C. bt c = 0"
  shows "channels_last_unit nm X_data (Some gm) (Some bt) C HxW G eps i (n, g) st =
         channels_last_unit nm X_data None None C HxW G eps i (n, g) st"
proof -
  have in_range: "g * (C div G) + d < C" if "d < C div G" for d
    using group_channel_in_range[OF g that] .
  have buf: "fold (\<lambda>d b.
                   let c = g * (C div G) + d;
                       b' = b(sp + d := fmul r rv (case Some gm of None \<Rightarrow> 1 | Some gm \<Rightarrow> gm c))
                   in b'(bp + d := fadd r (fmul r (- b' (sp + d)) mv)
                                     (case Some bt of None \<Rightarrow> 0 | Some bt \<Rightarrow> bt c)))
                 [0..<C div G] =
             fold (\<lambda>d b.
                   let c = g * (C div G) + d;
                       b' = b(sp + d := fmul r rv (case None :: buffer option of None \<Rightarrow> 1 | Some gm \<Rightarrow> gm c))
                   in b'(bp + d := fadd r (fmul r (- b' (sp + d)) mv)
                                     (case None :: buffer option of None \<Rightarrow> 0 | Some bt \<Rightarrow> bt c)))
                 [0..<C div G]" for sp bp r rv mv
    by (rule fold_cong_upt) (use in_range gm bt in \<open>simp add: Let_def\<close>)
  show ?thesis
    unfolding channels_last_unit_def
    by (simp only: Let_def split_conv buf[unfolded Let_def])
qed

lemma channels_last_impl1_identity_affine:
  assumes G: "0 < G" and gm: "\<forall>c<C. gm c = 1" and bt: "\<forall>c<C. bt c = 0"
  shows "channels_last_impl1 nm pool X_data (Some gm) (Some bt) N C HxW G eps st =
         channels_last_impl1 nm pool X_data None None N C HxW G eps st"
proof -
  have step: "snd (data_index_step ng N G) < G" if "snd ng < G" for ng
    using that G by (cases ng) (auto simp: data_index_step_def)
  have run: "fold (\<lambda>i (ng, st).
                  (data_index_step ng N G,
                   channels_last_unit nm X_data (Some gm) (Some bt) C HxW G eps i ng st)) xs (ng, st) =
             fold (\<lambda>i (ng, st).
                  (data_index_step ng N G,
                   channels_last_unit nm X_data None None C HxW G eps i ng st)) xs (ng, st)"
    if "snd ng < G" for xs ng st
    using that
  proof (induction xs arbitrary: ng st)
    case Nil
    show ?case by simp
  next
    case (Cons i xs)
    obtain n g where ng: "ng = (n, g)" by (cases ng)
    have "g < G" using Cons.prems ng by simp
    then show ?case
      using Cons.IH[OF step[OF Cons.prems]]
      by (simp add: ng channels_last_unit_identity_affine[OF _ gm bt])
  qed
  have init: "snd (data_index_init b N G) < G" for b
    using G by (simp add: data_index_init_def)
  show ?thesis
    unfolding channels_last_impl1_def by (simp add: run[OF init])
qed

lemma channels_last_scale_bias_identity_affine:
  assumes gm: "\<forall>c<C. gm c = 1" and bt: "\<forall>c<C. bt c = 0"
  shows "channels_last_scale_bias nm (Some gm) (Some bt) N C G st =
         channels_last_scale_bias nm None None N C G st"
proof -
  have buf: "fold (\<lambda>d b.
                   let c = g * (C div G) + d;
                       b' = b(sp + c := fmul r rv (case Some gm of None \<Rightarrow> 1 | Some gm \<Rightarrow> gm c))
                   in b'(bp + c := fadd r (fmul r (- b' (sp + c)) mv)
                                     (case Some bt of None \<Rightarrow> 0 | Some bt \<Rightarrow> bt c)))
                 [0..<C div G] =
             fold (\<lambda>d b.
                   let c = g * (C div G) + d;
                       b' = b(sp + c := fmul r rv (case None :: buffer option of None \<Rightarrow> 1 | Some gm \<Rightarrow> gm c))
                   in b'(bp + c := fadd r (fmul r (- b' (sp + c)) mv)
                                     (case None :: buffer option of None \<Rightarrow> 0 | Some bt \<Rightarrow> bt c)))
                 [0..<C div G]" if "g < G" for g sp bp r rv mv
    by (rule fold_cong_upt)
      (use group_channel_in_range[OF that] gm bt in \<open>simp add: Let_def\<close>)
  have inner: "fold (\<lambda>g st.
             let scale_ptr = n * 2 * C;
                 bias_ptr = scale_ptr + C;
                 mean_val = tmp_buffer_data st (n * 2 * G + 2 * g);
                 rstd_val = tmp_buffer_data st (n * 2 * G + 2 * g + 1);
                 buf = fold (\<lambda>d b.
                          let c = g * (C div G) + d;
                              b' = b(scale_ptr + c :=
                                     fmul (to_ACC nm) rstd_val (case Some gm of None \<Rightarrow> 1 | Some gm \<Rightarrow> gm c))
                          in b'(bias_ptr + c :=
                                  fadd (to_ACC nm) (fmul (to_ACC nm) (- b' (scale_ptr + c)) mean_val)
                                    (case Some bt of None \<Rightarrow> 0 | Some bt \<Rightarrow> bt c)))
                        [0..<C div G] (buffer_data st)
             in st\<lparr>mean_data := (mean_data st)(n * G + g := to_PT nm mean_val),
                    rstd_data := (rstd_data st)(n * G + g := to_PT nm rstd_val),
                    buffer_data := buf\<rparr>)
           [0..<G] =
         fold (\<lambda>g st.
             let scale_ptr = n * 2 * C;
                 bias_ptr = scale_ptr + C;
                 mean_val = tmp_buffer_data st (n * 2 * G + 2 * g);
                 rstd_val = tmp_buffer_data st (n * 2 * G + 2 * g + 1);
                 buf = fold (\<lambda>d b.
                          let c = g * (C div G) + d;
                              b' = b(scale_ptr + c :=
                                     fmul (to_ACC nm) rstd_val (case None :: buffer option of None \<Rightarrow> 1 | Some gm \<Rightarrow> gm c))
                          in b'(bias_ptr + c :=
                                  fadd (to_ACC nm) (fmul (to_ACC nm) (- b' (scale_ptr + c)) mean_val)
                                    (case None :: buffer option of None \<Rightarrow> 0 | Some bt \<Rightarrow> bt c)))
                        [0..<C div G] (buffer_data st)
             in st\<lparr>mean_data := (mean_data st)(n * G + g := to_PT nm mean_val),
                    rstd_data := (rstd_data st)(n * G + g := to_PT nm rstd_val),
                    buffer_data := buf\<rparr>)
           [0..<G]" for n
    apply (rule fold_cong_upt)
    apply (rule ext)
    apply (simp only: Let_def buf[unfolded Let_def])
    done
  show ?thesis
    unfolding channels_last_scale_bias_def
    by (simp only: Let_def inner[unfolded Let_def])
qed

section \<open>Forward: absent and identity affine parameters\<close>

lemma round_to_Float_identity_affine:
  "static_cast Float (35 / 4) = 35 / 4"
  "round_to Float (3 / 2) = 3 / 2" "round_to Float (1 / 4) = 1 / 4" "round_to Float 9 = 9"
  "round_to Float (1 / 3) = 11184811 / 33554432"
  "round_to Float (1 / 2) = 1 / 2" "round_to Float (- (1 / 2)) = - (1 / 2)"
  "round_to Float (11184811 / 33554432) = 11184811 / 33554432"
  "round_to Float (11184811 / 67108864) = 11184811 / 67108864"
  "round_to Float (- (11184811 / 67108864)) = - (11184811 / 67108864)"
  "round_to Float (11184811 / 16777216) = 11184811 / 16777216"
  "round_to Float (- (33554433 / 67108864)) = - (1 / 2)"
  "round_to Float (- (5592405 / 33554432)) = - (5592405 / 33554432)"
  "round_to Float (2796203 / 16777216) = 2796203 / 16777216"
  by code_simp+




end
